theory Spec2Isabelle
  imports Complex_Main "HOL-Library.AList" "HOL-Library.Multiset" "HOL-Library.Word"
    "HOL-Library.Log_Nat"
begin

section \<open>JavaScript values and strings\<close>

text \<open>
  A JavaScript string is a sequence of UTF-16 code units; \<open>length\<close> counts them.
  \<open>str\<close> writes the string of an ASCII or Latin-1 literal.
\<close>

type_synonym jsstring = "16 word list"

definition str :: "string \<Rightarrow> jsstring" where
  "str s = map (\<lambda>c. of_nat (of_char c)) s"

text \<open>
  The values that reach the fields of a task are JavaScript primitives. \<open>undefined\<close> is
  the absence of a value (\<open>None\<close> of \<open>prim option\<close>). \<open>PNum n\<close> is the number whose value
  is the integer \<open>n\<close> read as a signed 54-bit integer, from \<open>- 2^53\<close> to \<open>2^53 - 1\<close>: every
  such integer is a double, and the program only compares these numbers and tests them
  for zero (timestamps, sort positions). \<open>PNaN\<close> and \<open>PInfinity\<close> are the numbers that
  JSON cannot write. Numbers with a fractional part are outside the model.
\<close>

datatype prim = PNull | PBool bool | PNum "54 word" | PNaN | PInfinity bool | PStr jsstring

type_synonym jsval = "prim option"

fun truthy :: "prim \<Rightarrow> bool" where
  "truthy PNull = False"
| "truthy (PBool b) = b"
| "truthy (PNum n) = (n \<noteq> 0)"
| "truthy PNaN = False"
| "truthy (PInfinity positive) = True"
| "truthy (PStr s) = (s \<noteq> [])"

text \<open>A destructuring default \<open>{x = d}\<close> applies when the property is \<open>undefined\<close> only.\<close>

fun default_to :: "prim \<Rightarrow> jsval \<Rightarrow> prim" where
  "default_to d None = d"
| "default_to d (Some v) = v"

text \<open>
  \<open>String.prototype.trim\<close> removes the code points of WhiteSpace and LineTerminator
  (ECMAScript 12.2 and 12.3) from both ends: TAB, LF, VT, FF, CR, SP, NBSP, U+1680,
  U+2000 to U+200A, U+2028, U+2029, U+202F, U+205F, U+3000 and U+FEFF. All of them are
  single code units.
\<close>

definition is_space :: "16 word \<Rightarrow> bool" where
  "is_space c =
     (c \<in> set [0x0009, 0x000A, 0x000B, 0x000C, 0x000D, 0x0020, 0x00A0, 0x1680,
                0x2000, 0x2001, 0x2002, 0x2003, 0x2004, 0x2005, 0x2006, 0x2007,
                0x2008, 0x2009, 0x200A, 0x2028, 0x2029, 0x202F, 0x205F, 0x3000, 0xFEFF])"

definition trim :: "jsstring \<Rightarrow> jsstring" where
  "trim s = rev (dropWhile is_space (rev (dropWhile is_space s)))"

fun startsWith :: "jsstring \<Rightarrow> jsstring \<Rightarrow> bool" where
  "startsWith s [] = True"
| "startsWith [] (c # cs) = False"
| "startsWith (x # xs) (c # cs) = (x = c \<and> startsWith xs cs)"

fun str_includes :: "jsstring \<Rightarrow> jsstring \<Rightarrow> bool" where
  "str_includes [] t = (t = [])"
| "str_includes (x # xs) t = (startsWith (x # xs) t \<or> str_includes xs t)"

text \<open>
  \<open>String.prototype.toLowerCase\<close> is the case conversion of the Unicode character
  database. The functions that call it take it as the parameter \<open>toLowerCase\<close>. What is
  used of it, where a theorem needs it, is that it maps \<open>A\<close> to \<open>Z\<close> to \<open>a\<close> to \<open>z\<close> and
  keeps every other code unit of a string of ASCII characters (\<open>folds_ascii\<close>);
  \<open>fold_ascii\<close> is the function that does this and nothing else.
\<close>

definition fold_ascii :: "jsstring \<Rightarrow> jsstring" where
  "fold_ascii s = map (\<lambda>c. if 0x41 \<le> c \<and> c \<le> 0x5A then c + 0x20 else c) s"


section \<open>Errors\<close>

text \<open>
  One constructor for each place where the program throws. The wrappers carry the error
  they were built from (the \<open>cause\<close>). \<open>DOMException\<close> is what \<open>localStorage.setItem\<close>
  throws by itself.
\<close>

datatype storage_exn = QuotaExceededError | OtherStorageError

datatype error =
    TitleRequired
  | TitleEmpty
  | TitleTooLong
  | CannotDestructure
  | DOMException storage_exn
  | StorageFull
  | StorageWriteFailed
  | NotATask
  | IdsNotArray
  | TasksNotArray
  | ReorderNotArray
  | PredicateNotFunction
  | JsonSyntaxError
  | ImportNotArray
  | NotAFunction string
  | TaskNotFound jsval
  | SaveFailed error
  | DeleteFailed error
  | DeleteManyFailed error
  | ClearFailed error
  | SaveManyFailed error
  | ImportFailed error
  | UpdateFailed error

section \<open>Task (src/models/Task.js)\<close>

record task =
  task_id :: prim
  title :: jsstring
  completed :: bool
  createdAt :: prim
  order :: prim

text \<open>The object handed to the constructor: the five properties it reads.\<close>

record task_data =
  d_title :: jsval
  d_completed :: jsval
  d_id :: jsval
  d_createdAt :: jsval
  d_order :: jsval

text \<open>What \<open>crypto.randomUUID()\<close> and \<open>Date.now()\<close> return when one construction calls them.\<close>

record draw =
  randomUUID :: jsstring
  Date_now :: "54 word"

fun validateTitle :: "jsval \<Rightarrow> error + jsstring" where
  "validateTitle (Some (PStr s)) =
     (if s = [] then Inl TitleRequired
      else let t = trim s in
        if length t = 0 then Inl TitleEmpty
        else if length t > 200 then Inl TitleTooLong
        else Inr s)"
| "validateTitle _ = Inl TitleRequired"

definition Task_new :: "draw \<Rightarrow> task_data \<Rightarrow> error + task" where
  "Task_new g d =
     (case validateTitle (d_title d) of
        Inl e \<Rightarrow> Inl e
      | Inr s \<Rightarrow>
          Inr \<lparr> task_id = (let i = default_to PNull (d_id d)
                      in if truthy i then i else PStr (randomUUID g)),
                title = trim s,
                completed = truthy (default_to (PBool False) (d_completed d)),
                createdAt = (let c = default_to PNull (d_createdAt d)
                             in if truthy c then c else PNum (Date_now g)),
                order = default_to (PNum 0) (d_order d) \<rparr>)"

definition updateTitle :: "draw \<Rightarrow> task \<Rightarrow> jsval \<Rightarrow> error + task" where
  "updateTitle g t newTitle =
     Task_new g \<lparr> d_title = newTitle, d_completed = Some (PBool (completed t)),
                  d_id = Some (task_id t), d_createdAt = Some (createdAt t),
                  d_order = Some (order t) \<rparr>"

definition updateOrder :: "draw \<Rightarrow> task \<Rightarrow> jsval \<Rightarrow> error + task" where
  "updateOrder g t newOrder =
     Task_new g \<lparr> d_title = Some (PStr (title t)), d_completed = Some (PBool (completed t)),
                  d_id = Some (task_id t), d_createdAt = Some (createdAt t),
                  d_order = newOrder \<rparr>"

definition toggleCompleted :: "draw \<Rightarrow> task \<Rightarrow> error + task" where
  "toggleCompleted g t =
     Task_new g \<lparr> d_title = Some (PStr (title t)), d_completed = Some (PBool (\<not> completed t)),
                  d_id = Some (task_id t), d_createdAt = Some (createdAt t),
                  d_order = Some (order t) \<rparr>"

definition toJSON :: "task \<Rightarrow> task_data" where
  "toJSON t =
     \<lparr> d_title = Some (PStr (title t)), d_completed = Some (PBool (completed t)),
       d_id = Some (task_id t), d_createdAt = Some (createdAt t), d_order = Some (order t) \<rparr>"

text \<open>
  A parsed JSON element given to \<open>Task.fromJSON\<close>: destructuring \<open>null\<close> throws a
  TypeError; of any other value only the five properties are read.
\<close>

datatype element = ElemNull | Elem task_data

fun fromJSON :: "draw \<Rightarrow> element \<Rightarrow> error + task" where
  "fromJSON g ElemNull = Inl CannotDestructure"
| "fromJSON g (Elem d) = Task_new g d"

text \<open>
  The invariant of a task's title (not empty, no white space at either end, at most 200
  code units), and of a task built by the constructor.
\<close>

definition title_ok :: "jsstring \<Rightarrow> bool" where
  "title_ok s = (s \<noteq> [] \<and> \<not> is_space (hd s) \<and> \<not> is_space (last s) \<and> length s \<le> 200)"

definition task_ok :: "task \<Rightarrow> bool" where
  "task_ok t = (truthy (task_id t) \<and> truthy (createdAt t) \<and> title_ok (title t))"

definition draw_ok :: "draw \<Rightarrow> bool" where
  "draw_ok g = (randomUUID g \<noteq> [] \<and> Date_now g \<noteq> 0)"

section \<open>localStorage and JSON text\<close>

text \<open>
  \<open>JSON.stringify\<close> writes \<open>NaN\<close> and the infinities as \<open>null\<close> and leaves out a property
  that is \<open>undefined\<close>.
\<close>

fun jsonify :: "prim \<Rightarrow> prim" where
  "jsonify PNaN = PNull"
| "jsonify (PInfinity positive) = PNull"
| "jsonify p = p"

definition jsonify_data :: "task_data \<Rightarrow> task_data" where
  "jsonify_data d =
     \<lparr> d_title = map_option jsonify (d_title d),
       d_completed = map_option jsonify (d_completed d),
       d_id = map_option jsonify (d_id d),
       d_createdAt = map_option jsonify (d_createdAt d),
       d_order = map_option jsonify (d_order d) \<rparr>"

fun jsonify_element :: "element \<Rightarrow> element" where
  "jsonify_element ElemNull = ElemNull"
| "jsonify_element (Elem d) = Elem (jsonify_data d)"

text \<open>
  A text is identified with the JSON document it denotes: a text that \<open>JSON.parse\<close>
  rejects, a document that is not an array, or an array of elements, none of which holds
  \<open>NaN\<close> or an infinity. \<open>JSON.stringify\<close> of an array of task objects, pretty-printed
  or not, denotes that array as JSON writes it.
\<close>

datatype json_text = Malformed | NonArray | Records "element list"

definition JSON_stringify :: "task_data list \<Rightarrow> json_text" where
  "JSON_stringify ds = Records (map (\<lambda>d. Elem (jsonify_data d)) ds)"

fun JSON_parse :: "json_text \<Rightarrow> error + element list option" where
  "JSON_parse Malformed = Inl JsonSyntaxError"
| "JSON_parse NonArray = Inr None"
| "JSON_parse (Records es) = Inr (Some (map jsonify_element es))"

text \<open>
  The storage adapter under the repository's key: the stored text, and which writes it
  rejects (quota or another failure), given the text it holds.
\<close>

record storage =
  item :: "json_text option"
  rejects :: "json_text option \<Rightarrow> json_text \<Rightarrow> storage_exn option"

definition setItem :: "storage \<Rightarrow> json_text \<Rightarrow> storage_exn + storage" where
  "setItem st txt =
     (case rejects st (item st) txt of
        Some x \<Rightarrow> Inl x
      | None \<Rightarrow> Inr (st\<lparr>item := Some txt\<rparr>))"

section \<open>TaskRepository (src/unnamed/part_000)\<close>

text \<open>
  The \<open>Map\<close> of the repository is an association list in insertion order:
  \<open>Map.set\<close> replaces the value of a present key in place and appends an absent one
  (\<open>AList.update\<close>), \<open>Map.delete\<close> removes the key (\<open>AList.delete\<close>). The keys
  are task ids; looking up \<open>undefined\<close> finds nothing.
\<close>

type_synonym task_map = "(prim \<times> task) list"

definition Map_get :: "task_map \<Rightarrow> jsval \<Rightarrow> task option" where
  "Map_get m k = (case k of None \<Rightarrow> None | Some p \<Rightarrow> map_of m p)"

definition Map_has :: "task_map \<Rightarrow> jsval \<Rightarrow> bool" where
  "Map_has m k = (case k of None \<Rightarrow> False | Some p \<Rightarrow> p \<in> set (map fst m))"

definition Map_set :: "task_map \<Rightarrow> prim \<Rightarrow> task \<Rightarrow> task_map" where
  "Map_set m k v = AList.update k v m"

definition Map_delete :: "task_map \<Rightarrow> jsval \<Rightarrow> task_map" where
  "Map_delete m k = (case k of None \<Rightarrow> m | Some p \<Rightarrow> AList.delete p m)"

definition Map_values :: "task_map \<Rightarrow> task list" where
  "Map_values m = map snd m"

record repo =
  tasks :: task_map
  store :: storage

text \<open>A value handed to \<open>save\<close>: an instance of \<open>Task\<close> or anything else.\<close>

datatype task_arg = Instance task | NotInstance

definition persist :: "repo \<Rightarrow> error + repo" where
  "persist r =
     (case setItem (store r) (JSON_stringify (map toJSON (Map_values (tasks r)))) of
        Inl x \<Rightarrow> Inl (if x = QuotaExceededError then StorageFull else StorageWriteFailed)
      | Inr st \<Rightarrow> Inr (r\<lparr>store := st\<rparr>))"

fun validateTask :: "task_arg \<Rightarrow> error + task" where
  "validateTask (Instance t) = Inr t"
| "validateTask NotInstance = Inl NotATask"

text \<open>
  Every method returns its result, or the error it throws, with the repository as the
  call leaves it. In \<open>save\<close>, \<open>isNewtask\<close> holds exactly when \<open>previousTask\<close> is
  \<open>undefined\<close>.
\<close>

definition save :: "repo \<Rightarrow> task_arg \<Rightarrow> (error + task) \<times> repo" where
  "save r a =
     (case validateTask a of
        Inl e \<Rightarrow> (Inl e, r)
      | Inr t \<Rightarrow>
          let previousTask = Map_get (tasks r) (Some (task_id t));
              r1 = r\<lparr>tasks := Map_set (tasks r) (task_id t) t\<rparr>
          in case persist r1 of
               Inr r2 \<Rightarrow> (Inr t, r2)
             | Inl e \<Rightarrow>
                 (Inl (SaveFailed e),
                  (case previousTask of
                     None \<Rightarrow> r1\<lparr>tasks := Map_delete (tasks r1) (Some (task_id t))\<rparr>
                   | Some p \<Rightarrow> r1\<lparr>tasks := Map_set (tasks r1) (task_id t) p\<rparr>)))"

definition exists :: "repo \<Rightarrow> jsval \<Rightarrow> bool" where
  "exists r k = Map_has (tasks r) k"

text \<open>\<open>Array.prototype.map\<close> with a callback that may throw; the callback sees the index.\<close>

fun traverse :: "(nat \<Rightarrow> 'a \<Rightarrow> error + 'b) \<Rightarrow> nat \<Rightarrow> 'a list \<Rightarrow> error + 'b list" where
  "traverse f i [] = Inr []"
| "traverse f i (x # xs) =
     (case f i x of
        Inl e \<Rightarrow> Inl e
      | Inr y \<Rightarrow> (case traverse f (Suc i) xs of Inl e \<Rightarrow> Inl e | Inr ys \<Rightarrow> Inr (y # ys)))"

text \<open>\<open>G i\<close> is the draw of the \<open>i\<close>-th construction of a call.\<close>

definition findAll :: "(nat \<Rightarrow> draw) \<Rightarrow> repo \<Rightarrow> error + task list" where
  "findAll G r = traverse (\<lambda>i t. fromJSON (G i) (Elem (toJSON t))) 0 (Map_values (tasks r))"

definition findBy :: "(nat \<Rightarrow> draw) \<Rightarrow> repo \<Rightarrow> (task \<Rightarrow> bool) option \<Rightarrow> error + task list" where
  "findBy G r predicate =
     (case predicate of
        None \<Rightarrow> Inl PredicateNotFunction
      | Some p \<Rightarrow> (case findAll G r of Inl e \<Rightarrow> Inl e | Inr ts \<Rightarrow> Inr (filter p ts)))"

definition findById :: "draw \<Rightarrow> repo \<Rightarrow> jsval \<Rightarrow> error + task option" where
  "findById g r k =
     (case Map_get (tasks r) k of
        None \<Rightarrow> Inr None
      | Some t \<Rightarrow> (case fromJSON g (Elem (toJSON t)) of Inl e \<Rightarrow> Inl e | Inr c \<Rightarrow> Inr (Some c)))"

definition delete :: "repo \<Rightarrow> jsval \<Rightarrow> (error + bool) \<times> repo" where
  "delete r k =
     (case k of
        None \<Rightarrow> (Inr False, r)
      | Some p \<Rightarrow>
          (case Map_get (tasks r) k of
             None \<Rightarrow> (Inr False, r)
           | Some taskToDelete \<Rightarrow>
               let r1 = r\<lparr>tasks := Map_delete (tasks r) k\<rparr>
               in case persist r1 of
                    Inr r2 \<Rightarrow> (Inr True, r2)
                  | Inl e \<Rightarrow>
                      (Inl (DeleteFailed e), r1\<lparr>tasks := Map_set (tasks r1) p taskToDelete\<rparr>)))"

fun deleteMany_loop :: "jsval list \<Rightarrow> task_map \<times> nat \<Rightarrow> task_map \<times> nat" where
  "deleteMany_loop [] (m, n) = (m, n)"
| "deleteMany_loop (k # ks) (m, n) =
     (if Map_has m k then deleteMany_loop ks (Map_delete m k, n + 1)
      else deleteMany_loop ks (m, n))"

definition deleteMany :: "repo \<Rightarrow> jsval list option \<Rightarrow> (error + nat) \<times> repo" where
  "deleteMany r ids =
     (case ids of
        None \<Rightarrow> (Inl IdsNotArray, r)
      | Some ks \<Rightarrow>
          let previousTasks = tasks r;
              (m, deletedCount) = deleteMany_loop ks (tasks r, 0);
              r1 = r\<lparr>tasks := m\<rparr>
          in if deletedCount = 0 then (Inr 0, r1)
             else case persist r1 of
                    Inr r2 \<Rightarrow> (Inr deletedCount, r2)
                  | Inl e \<Rightarrow> (Inl (DeleteManyFailed e), r1\<lparr>tasks := previousTasks\<rparr>))"

definition clear :: "repo \<Rightarrow> (error + nat) \<times> repo" where
  "clear r =
     (let previousTasks = tasks r;
          count = length (tasks r)
      in if count = 0 then (Inr 0, r)
         else case persist (r\<lparr>tasks := []\<rparr>) of
                Inr r2 \<Rightarrow> (Inr count, r2)
              | Inl e \<Rightarrow> (Inl (ClearFailed e), r\<lparr>tasks := previousTasks\<rparr>))"

fun saveMany_loop :: "task_arg list \<Rightarrow> task_map \<Rightarrow> error + task_map" where
  "saveMany_loop [] m = Inr m"
| "saveMany_loop (a # as) m =
     (case validateTask a of
        Inl e \<Rightarrow> Inl e
      | Inr t \<Rightarrow> saveMany_loop as (Map_set m (task_id t) t))"

definition saveMany :: "repo \<Rightarrow> task_arg list option \<Rightarrow> (error + nat) \<times> repo" where
  "saveMany r args =
     (case args of
        None \<Rightarrow> (Inl TasksNotArray, r)
      | Some as \<Rightarrow>
          let backupTasks = tasks r
          in case saveMany_loop as (tasks r) of
               Inl e \<Rightarrow> (Inl (SaveManyFailed e), r\<lparr>tasks := backupTasks\<rparr>)
             | Inr m \<Rightarrow>
                 (case persist (r\<lparr>tasks := m\<rparr>) of
                    Inr r2 \<Rightarrow> (Inr (length as), r2)
                  | Inl e \<Rightarrow> (Inl (SaveManyFailed e), r\<lparr>tasks := backupTasks\<rparr>)))"

definition export :: "repo \<Rightarrow> json_text" where
  "export r = JSON_stringify (map toJSON (Map_values (tasks r)))"

fun import_loop :: "(nat \<Rightarrow> draw) \<Rightarrow> nat \<Rightarrow> element list \<Rightarrow> task_map \<Rightarrow> error + task_map" where
  "import_loop G i [] m = Inr m"
| "import_loop G i (e # es) m =
     (case fromJSON (G i) e of
        Inl x \<Rightarrow> Inl x
      | Inr t \<Rightarrow> import_loop G (Suc i) es (Map_set m (task_id t) t))"

definition import :: "(nat \<Rightarrow> draw) \<Rightarrow> repo \<Rightarrow> json_text \<Rightarrow> (error + nat) \<times> repo" where
  "import G r jsonString =
     (let previousTasks = tasks r
      in case JSON_parse jsonString of
           Inl e \<Rightarrow> (Inl (ImportFailed e), r\<lparr>tasks := previousTasks\<rparr>)
         | Inr None \<Rightarrow> (Inl (ImportFailed ImportNotArray), r\<lparr>tasks := previousTasks\<rparr>)
         | Inr (Some tasksArray) \<Rightarrow>
             (case import_loop G 0 tasksArray [] of
                Inl e \<Rightarrow> (Inl (ImportFailed e), r\<lparr>tasks := previousTasks\<rparr>)
              | Inr tempMap \<Rightarrow>
                  (case setItem (store r) (JSON_stringify (map toJSON (Map_values tempMap))) of
                     Inl x \<Rightarrow> (Inl (ImportFailed (DOMException x)), r\<lparr>tasks := previousTasks\<rparr>)
                   | Inr st \<Rightarrow>
                       let r1 = r\<lparr>store := st, tasks := tempMap\<rparr>
                       in case persist r1 of
                            Inr r2 \<Rightarrow> (Inr (length (tasks r2)), r2)
                          | Inl e \<Rightarrow> (Inl (ImportFailed e), r1\<lparr>tasks := previousTasks\<rparr>))))"

text \<open>
  Arithmetic on numbers is arithmetic on doubles: the exact result rounded to the nearest
  number with a 53-bit significand, ties to the even one (\<open>to_double\<close>). The exponent is
  not bounded here; the quotients and products below stay far from the overflow and
  underflow thresholds. A double is written as the rational it is equal to.
\<close>

definition pow2 :: "int \<Rightarrow> rat" where
  "pow2 k = (if 0 \<le> k then 2 ^ nat k else 1 / 2 ^ nat (- k))"

definition round_half_even :: "rat \<Rightarrow> int" where
  "round_half_even q =
     (let f = \<lfloor>q\<rfloor>; d = q - of_int f
      in if d < 1 / 2 then f else if 1 / 2 < d then f + 1 else if even f then f else f + 1)"

text \<open>The exponent of the binade of a positive number: \<open>2 ^ e \<le> x < 2 ^ (e + 1)\<close>.\<close>

definition binade :: "rat \<Rightarrow> int" where
  "binade x =
     (let (a, b) = quotient_of x; k = bitlen a - bitlen b
      in if pow2 k \<le> x then k else k - 1)"

definition to_double :: "rat \<Rightarrow> rat" where
  "to_double x =
     (if x = 0 then 0
      else let u = pow2 (binade \<bar>x\<bar> - 52)
           in sgn x * of_int (round_half_even (\<bar>x\<bar> / u)) * u)"

text \<open>
  \<open>toFixed(1)\<close> prints the nearest multiple of one tenth of the exact value of the
  double, the larger one on a tie, for a number from 0 up to \<open>10^21\<close>; \<open>Math.round\<close> gives
  the nearest integer, the larger one on a tie. Both are exact on the double they are
  given. \<open>decimal\<close> writes a natural number in ASCII digits.
\<close>

fun decimal :: "nat \<Rightarrow> string" where
  "decimal n =
     (if n < 10 then [''0123456789'' ! n]
      else decimal (n div 10) @ [''0123456789'' ! (n mod 10)])"

declare decimal.simps [simp del]

definition toFixed1 :: "rat \<Rightarrow> string" where
  "toFixed1 x = (let n = nat \<lfloor>x * 10 + 1 / 2\<rfloor> in decimal (n div 10) @ ''.'' @ decimal (n mod 10))"

definition Math_round :: "rat \<Rightarrow> int" where
  "Math_round x = \<lfloor>x + 1 / 2\<rfloor>"

text \<open>
  \<open>getStats\<close>. The size of the map is a number; \<open>completedCount\<close> is counted up by
  one from 0, which is exact up to \<open>2^53\<close> and stays there.
\<close>

record stats =
  rs_total :: rat
  rs_completed :: rat
  rs_pending :: rat
  rs_completionRate :: string

definition getStats :: "repo \<Rightarrow> stats" where
  "getStats r =
     (let completedCount = of_nat (min (length (filter completed (Map_values (tasks r)))) (2 ^ 53));
          mapSize = to_double (of_nat (length (tasks r)));
          pendingCount = to_double (mapSize - completedCount)
      in \<lparr> rs_total = mapSize,
           rs_completed = completedCount,
           rs_pending = pendingCount,
           rs_completionRate =
             (if mapSize > 0
              then toFixed1 (to_double (to_double (completedCount / mapSize) * 100)) @ ''%''
              else ''0%'') \<rparr>)"

text \<open>
  The class declares the methods above and no others. A property that a class does not
  declare is \<open>undefined\<close> on its instances, and calling it throws a TypeError. The two
  aggregate queries that the service calls are such properties. Where an injected
  repository has them, they return integers.
\<close>

record aggregates =
  count :: "(repo \<Rightarrow> int) option"
  countBy :: "(repo \<Rightarrow> (task \<Rightarrow> bool) \<Rightarrow> int) option"

definition TaskRepository_aggregates :: aggregates where
  "TaskRepository_aggregates = \<lparr> count = None, countBy = None \<rparr>"

section \<open>TaskService (src/services/TaskService.js)\<close>

definition ensureTaskExists :: "draw \<Rightarrow> repo \<Rightarrow> jsval \<Rightarrow> error + task" where
  "ensureTaskExists g r taskId =
     (case findById g r taskId of
        Inl e \<Rightarrow> Inl e
      | Inr None \<Rightarrow> Inl (TaskNotFound taskId)
      | Inr (Some t) \<Rightarrow> Inr t)"

definition createTask :: "draw \<Rightarrow> repo \<Rightarrow> jsval \<Rightarrow> (error + task) \<times> repo" where
  "createTask g r ttl =
     (case Task_new g \<lparr> d_title = ttl, d_completed = None, d_id = None,
                         d_createdAt = None, d_order = None \<rparr> of
        Inl e \<Rightarrow> (Inl e, r)
      | Inr t \<Rightarrow> save r (Instance t))"

record updates =
  u_title :: jsval
  u_completed :: jsval
  u_order :: jsval

text \<open>
  The draws \<open>G 0\<close>, \<open>G 1\<close>, \<open>G 2\<close>, \<open>G 3\<close> belong to the copy made by \<open>findById\<close> and to
  the constructions of \<open>updateTitle\<close>, \<open>toggleCompleted\<close> and \<open>updateOrder\<close>.
\<close>

definition updateTask :: "(nat \<Rightarrow> draw) \<Rightarrow> repo \<Rightarrow> jsval \<Rightarrow> updates \<Rightarrow> (error + task) \<times> repo" where
  "updateTask G r taskId u =
     (case ensureTaskExists (G 0) r taskId of
        Inl e \<Rightarrow> (Inl e, r)
      | Inr currentTask \<Rightarrow>
          (case (if u_title u \<noteq> None then updateTitle (G 1) currentTask (u_title u)
                 else Inr currentTask) of
             Inl e \<Rightarrow> (Inl (UpdateFailed e), r)
           | Inr t1 \<Rightarrow>
               (case (if u_completed u \<noteq> None
                         \<and> u_completed u \<noteq> Some (PBool (completed currentTask))
                      then toggleCompleted (G 2) t1 else Inr t1) of
                  Inl e \<Rightarrow> (Inl (UpdateFailed e), r)
                | Inr t2 \<Rightarrow>
                    (case (if u_order u \<noteq> None then updateOrder (G 3) t2 (u_order u)
                           else Inr t2) of
                       Inl e \<Rightarrow> (Inl (UpdateFailed e), r)
                     | Inr t3 \<Rightarrow>
                         (case save r (Instance t3) of
                            (Inl e, r') \<Rightarrow> (Inl (UpdateFailed e), r')
                          | (Inr t, r') \<Rightarrow> (Inr t, r'))))))"

definition toggleTaskCompletion :: "(nat \<Rightarrow> draw) \<Rightarrow> repo \<Rightarrow> jsval \<Rightarrow> (error + task) \<times> repo" where
  "toggleTaskCompletion G r taskId =
     (case ensureTaskExists (G 0) r taskId of
        Inl e \<Rightarrow> (Inl e, r)
      | Inr currentTask \<Rightarrow>
          (case toggleCompleted (G 1) currentTask of
             Inl e \<Rightarrow> (Inl e, r)
           | Inr toggleTask \<Rightarrow> save r (Instance toggleTask)))"

record reorder_item =
  r_id :: jsval
  r_order :: jsval

text \<open>
  The callback of \<open>reorderTasks\<close> constructs twice for the \<open>i\<close>-th item: the copy of
  \<open>findById\<close> (draw \<open>G (2 * i)\<close>) and \<open>updateOrder\<close> (draw \<open>G (2 * i + 1)\<close>).
\<close>

definition reorderTasks ::
  "(nat \<Rightarrow> draw) \<Rightarrow> repo \<Rightarrow> reorder_item list option \<Rightarrow> (error + nat) \<times> repo" where
  "reorderTasks G r reorderedTasks =
     (case reorderedTasks of
        None \<Rightarrow> (Inl ReorderNotArray, r)
      | Some items \<Rightarrow>
          (case traverse
                  (\<lambda>i it. case ensureTaskExists (G (2 * i)) r (r_id it) of
                             Inl e \<Rightarrow> Inl e
                           | Inr t \<Rightarrow> updateOrder (G (2 * i + 1)) t (r_order it))
                  0 items of
             Inl e \<Rightarrow> (Inl e, r)
           | Inr tasksToUpdate \<Rightarrow> saveMany r (Some (map Instance tasksToUpdate))))"

definition deleteTask :: "draw \<Rightarrow> repo \<Rightarrow> jsval \<Rightarrow> (error + bool) \<times> repo" where
  "deleteTask g r taskId =
     (case ensureTaskExists g r taskId of
        Inl e \<Rightarrow> (Inl e, r)
      | Inr t \<Rightarrow> delete r taskId)"

definition clearCompleted :: "(nat \<Rightarrow> draw) \<Rightarrow> repo \<Rightarrow> (error + nat) \<times> repo" where
  "clearCompleted G r =
     (case findBy G r (Some completed) of
        Inl e \<Rightarrow> (Inl e, r)
      | Inr completedTasks \<Rightarrow> deleteMany r (Some (map (\<lambda>t. Some (task_id t)) completedTasks)))"

definition clearAll :: "repo \<Rightarrow> (error + nat) \<times> repo" where
  "clearAll r = clear r"

definition getTaskById :: "draw \<Rightarrow> repo \<Rightarrow> jsval \<Rightarrow> error + task option" where
  "getTaskById g r taskId = findById g r taskId"

definition searchTasks ::
  "(jsstring \<Rightarrow> jsstring) \<Rightarrow> (nat \<Rightarrow> draw) \<Rightarrow> repo \<Rightarrow> jsval \<Rightarrow> error + task list" where
  "searchTasks toLowerCase G r searchTerm =
     (case searchTerm of
        Some (PStr s) \<Rightarrow>
          if s = [] then Inr []
          else let normalizedTerm = toLowerCase (trim s)
               in findBy G r (Some (\<lambda>t. str_includes (toLowerCase (title t)) normalizedTerm))
      | _ \<Rightarrow> Inr [])"

record statistics =
  sv_total :: rat
  sv_completed :: rat
  sv_pending :: rat
  sv_completionRate :: int

definition call_count :: "aggregates \<Rightarrow> repo \<Rightarrow> error + rat" where
  "call_count A r =
     (case count A of
        None \<Rightarrow> Inl (NotAFunction ''count'')
      | Some f \<Rightarrow> Inr (to_double (of_int (f r))))"

definition call_countBy :: "aggregates \<Rightarrow> repo \<Rightarrow> (task \<Rightarrow> bool) \<Rightarrow> error + rat" where
  "call_countBy A r p =
     (case countBy A of
        None \<Rightarrow> Inl (NotAFunction ''countBy'')
      | Some f \<Rightarrow> Inr (to_double (of_int (f r p))))"

text \<open>The service over an injected repository object with the aggregate members \<open>A\<close>.\<close>

definition getStatistics :: "aggregates \<Rightarrow> repo \<Rightarrow> error + statistics" where
  "getStatistics A r =
     (case call_count A r of
        Inl e \<Rightarrow> Inl e
      | Inr totalN \<Rightarrow>
          (case call_countBy A r completed of
             Inl e \<Rightarrow> Inl e
           | Inr completedN \<Rightarrow>
               let pendingN = to_double (totalN - completedN);
                   completionRate =
                     (if totalN > 0
                      then Math_round (to_double (to_double (completedN / totalN) * 100))
                      else 0)
               in Inr \<lparr> sv_total = totalN, sv_completed = completedN, sv_pending = pendingN,
                        sv_completionRate = completionRate \<rparr>))"

definition hasTask :: "aggregates \<Rightarrow> repo \<Rightarrow> error + bool" where
  "hasTask A r = (case call_count A r of Inl e \<Rightarrow> Inl e | Inr n \<Rightarrow> Inr (n > 0))"

definition hasCompletedTasks :: "aggregates \<Rightarrow> repo \<Rightarrow> error + bool" where
  "hasCompletedTasks A r =
     (case call_countBy A r completed of Inl e \<Rightarrow> Inl e | Inr n \<Rightarrow> Inr (n > 0))"

definition hasPendingTasks :: "aggregates \<Rightarrow> repo \<Rightarrow> error + bool" where
  "hasPendingTasks A r =
     (case call_countBy A r (\<lambda>t. \<not> completed t) of Inl e \<Rightarrow> Inl e | Inr n \<Rightarrow> Inr (n > 0))"

definition exportTasks :: "repo \<Rightarrow> json_text" where
  "exportTasks r = export r"

definition importTasks :: "(nat \<Rightarrow> draw) \<Rightarrow> repo \<Rightarrow> json_text \<Rightarrow> (error + nat) \<times> repo" where
  "importTasks G r jsonString = import G r jsonString"

section \<open>Well-formed states\<close>

text \<open>
  A repository is well formed when its map has each key once, files every task under
  its own id, and holds tasks that satisfy the invariant of the constructor. A task is
  stable under JSON when none of its fields is \<open>NaN\<close> or an infinity. The spec's error
  classes are read off the place where the error was thrown.
\<close>

definition repo_ok :: "repo \<Rightarrow> bool" where
  "repo_ok r =
     (distinct (map fst (tasks r))
      \<and> (\<forall>(k, t) \<in> set (tasks r). k = task_id t \<and> task_ok t))"

definition json_stable :: "task \<Rightarrow> bool" where
  "json_stable t =
     (jsonify (task_id t) = task_id t \<and> jsonify (createdAt t) = createdAt t
      \<and> jsonify (order t) = order t)"

text \<open>
  The write of the map \<open>m\<close> is rejected by the storage of \<open>r\<close>; the repository
  after that write was accepted; and two repository states have the same content: the
  same task under every id, and \<open>findAll\<close> returns the same tasks, as a multiset, in
  both.
\<close>

definition write_rejected :: "repo \<Rightarrow> task_map \<Rightarrow> bool" where
  "write_rejected r m =
     (rejects (store r) (item (store r)) (JSON_stringify (map toJSON (Map_values m))) \<noteq> None)"

definition written :: "repo \<Rightarrow> task_map \<Rightarrow> repo" where
  "written r m = r\<lparr>store := (store r)\<lparr>item := Some (JSON_stringify (map toJSON (Map_values m)))\<rparr>\<rparr>"

definition same_content :: "(nat \<Rightarrow> draw) \<Rightarrow> (nat \<Rightarrow> draw) \<Rightarrow> repo \<Rightarrow> repo \<Rightarrow> bool" where
  "same_content G G' r r' =
     ((\<forall>k. Map_get (tasks r') k = Map_get (tasks r) k)
      \<and> (case (findAll G r, findAll G' r') of
           (Inr before, Inr after) \<Rightarrow> mset after = mset before
         | _ \<Rightarrow> False))"

fun storage_rejection :: "error \<Rightarrow> bool" where
  "storage_rejection StorageFull = True"
| "storage_rejection StorageWriteFailed = True"
| "storage_rejection (DOMException x) = True"
| "storage_rejection _ = False"

fun PersistenceError :: "error \<Rightarrow> bool" where
  "PersistenceError (SaveFailed e) = storage_rejection e"
| "PersistenceError (DeleteFailed e) = storage_rejection e"
| "PersistenceError (DeleteManyFailed e) = storage_rejection e"
| "PersistenceError (ClearFailed e) = storage_rejection e"
| "PersistenceError (SaveManyFailed e) = storage_rejection e"
| "PersistenceError (ImportFailed e) = storage_rejection e"
| "PersistenceError _ = False"

fun NotFound :: "error \<Rightarrow> bool" where
  "NotFound (TaskNotFound k) = True"
| "NotFound _ = False"

text \<open>The five fields of a task, as the persisted record lists them.\<close>

definition tuple :: "task \<Rightarrow> prim \<times> jsstring \<times> bool \<times> prim \<times> prim" where
  "tuple t = (task_id t, title t, completed t, createdAt t, order t)"

section \<open>Example states\<close>

text \<open>Concrete tasks, stores and draws on which the theorems below are instantiated.\<close>

definition example_task :: "string \<Rightarrow> string \<Rightarrow> bool \<Rightarrow> 54 word \<Rightarrow> prim \<times> task" where
  "example_task i ttl c ord =
     (PStr (str i), \<lparr> task_id = PStr (str i), title = str ttl, completed = c,
                      createdAt = PNum 1700000000000, order = PNum ord \<rparr>)"

definition example_repo :: "storage \<Rightarrow> repo" where
  "example_repo st =
     \<lparr> tasks = [example_task ''a'' ''Buy milk'' False 2,
                example_task ''b'' ''Write report'' True 1,
                example_task ''c'' ''Call Ana'' False 0],
       store = st \<rparr>"

definition accepting :: storage where
  "accepting = \<lparr> item = None, rejects = (\<lambda>held txt. None) \<rparr>"

definition full :: storage where
  "full = \<lparr> item = None, rejects = (\<lambda>held txt. Some QuotaExceededError) \<rparr>"

definition example_draws :: "nat \<Rightarrow> draw" where
  "example_draws i = \<lparr> randomUUID = str ''3f2c8a1e-generated'', Date_now = 1700000000999 \<rparr>"

text \<open>A task whose creation time is the timestamp 0, and a repository that holds it.\<close>

definition epoch_task :: task where
  "epoch_task = \<lparr> task_id = PStr (str ''a''), title = str ''Buy milk'', completed = False,
                  createdAt = PNum 0, order = PNum 0 \<rparr>"

definition epoch_repo :: repo where
  "epoch_repo = \<lparr> tasks = [(PStr (str ''a''), epoch_task)], store = accepting \<rparr>"

text \<open>
  The draws of a call made while the clock passes from 0 to a later time: the first
  construction reads 0, the following ones read the later time.
\<close>

definition epoch_draws :: "nat \<Rightarrow> draw" where
  "epoch_draws i = \<lparr> randomUUID = str ''3f2c8a1e-generated'',
                     Date_now = (if i = 0 then 0 else 1700000000999) \<rparr>"

section \<open>The spec's description of \<open>updateTask\<close>\<close>

text \<open>
  This definition follows the words of the spec, not the source: the task that results
  from at most three field updates of the current task, in the order title,
  completed-toggle (only when the requested value is defined and differs from the
  current task's), order. The id and \<open>createdAt\<close> are those of the current task.
\<close>

definition updated_spec :: "task \<Rightarrow> updates \<Rightarrow> task" where
  "updated_spec current u =
     \<lparr> task_id = task_id current,
       title = (case u_title u of Some (PStr s) \<Rightarrow> trim s | _ \<Rightarrow> title current),
       completed = (if u_completed u \<noteq> None \<and> u_completed u \<noteq> Some (PBool (completed current))
                    then \<not> completed current else completed current),
       createdAt = createdAt current,
       order = (case u_order u of None \<Rightarrow> order current | Some p \<Rightarrow> p) \<rparr>"

section \<open>Basic facts\<close>

lemma dropWhile_not_hd: "xs = [] \<or> \<not> P (hd xs) \<Longrightarrow> dropWhile P xs = xs"
  by (cases xs) auto

lemma trim_decomp:
  "\<exists>pre post. s = pre @ trim s @ post \<and> (\<forall>c \<in> set pre. is_space c) \<and> (\<forall>c \<in> set post. is_space c)"
proof -
  define a where "a = dropWhile is_space s"
  have "rev a = takeWhile is_space (rev a) @ dropWhile is_space (rev a)"
    by simp
  then have "a = rev (dropWhile is_space (rev a)) @ rev (takeWhile is_space (rev a))"
    by (metis rev_append rev_rev_ident)
  then have a: "a = trim s @ rev (takeWhile is_space (rev a))"
    by (simp add: trim_def a_def)
  have "s = takeWhile is_space s @ a"
    by (simp add: a_def)
  with a have "s = takeWhile is_space s @ trim s @ rev (takeWhile is_space (rev a))"
    by simp
  moreover have "\<forall>c \<in> set (takeWhile is_space s). is_space c"
    by (auto dest: set_takeWhileD)
  moreover have "\<forall>c \<in> set (rev (takeWhile is_space (rev a))). is_space c"
    by (auto dest: set_takeWhileD)
  ultimately show ?thesis by blast
qed

lemma trim_unique:
  assumes s: "s = pre @ core @ post"
    and pre: "\<forall>c \<in> set pre. is_space c" and post: "\<forall>c \<in> set post. is_space c"
    and core: "core = [] \<or> (\<not> is_space (hd core) \<and> \<not> is_space (last core))"
  shows "trim s = core"
proof -
  have front: "dropWhile is_space s = dropWhile is_space (core @ post)"
    unfolding s using pre by (intro dropWhile_append2) simp
  show ?thesis
  proof (cases "core = []")
    case True
    have "dropWhile is_space post = []" using post by simp
    with True front have e: "dropWhile is_space s = []" by simp
    have "trim s = []" unfolding trim_def by (simp only: e rev.simps dropWhile.simps)
    with True show ?thesis by simp
  next
    case False
    with core have hd: "\<not> is_space (hd core)" and lst: "\<not> is_space (last core)" by auto
    from False hd have "dropWhile is_space (core @ post) = core @ post"
      by (cases core) auto
    with front have "dropWhile is_space (rev (dropWhile is_space s))
                     = dropWhile is_space (rev post @ rev core)"
      by simp
    also have "\<dots> = dropWhile is_space (rev core)"
      using post by (intro dropWhile_append2) simp
    also have "\<dots> = rev core"
      using False lst by (intro dropWhile_not_hd) (simp add: hd_rev)
    finally show ?thesis by (simp add: trim_def)
  qed
qed

lemma trim_ends:
  assumes "trim s \<noteq> []"
  shows "\<not> is_space (hd (trim s)) \<and> \<not> is_space (last (trim s))"
proof -
  define a where "a = dropWhile is_space s"
  define b where "b = dropWhile is_space (rev a)"
  have t: "trim s = rev b" by (simp add: trim_def a_def b_def)
  with assms have b: "b \<noteq> []" by simp
  then have "\<not> is_space (hd b)" unfolding b_def by (metis hd_dropWhile)
  then have lst: "\<not> is_space (last (trim s))" using b by (simp add: t last_rev)
  have "rev a = takeWhile is_space (rev a) @ b" unfolding b_def by simp
  then have "a = rev b @ rev (takeWhile is_space (rev a))"
    by (metis rev_append rev_rev_ident)
  with b have "hd (rev b) = hd a" "a \<noteq> []"
    by (metis hd_append2 rev_is_Nil_conv, metis append_is_Nil_conv rev_is_Nil_conv)
  moreover from \<open>a \<noteq> []\<close> have "\<not> is_space (hd a)" unfolding a_def by (metis hd_dropWhile)
  ultimately show ?thesis using lst by (simp add: t)
qed

lemma trim_idem: "trim (trim s) = trim s"
proof (rule trim_unique [where pre = "[]" and post = "[]"])
  show "trim s = [] @ trim s @ []" by simp
  show "trim s = [] \<or> (\<not> is_space (hd (trim s)) \<and> \<not> is_space (last (trim s)))"
    using trim_ends by blast
qed simp_all

lemma trim_spaces: "(\<forall>c \<in> set s. is_space c) \<longleftrightarrow> trim s = []"
proof
  assume "\<forall>c \<in> set s. is_space c"
  then show "trim s = []"
    by (intro trim_unique [where pre = s and post = "[]"]) simp_all
next
  assume "trim s = []"
  with trim_decomp [of s] show "\<forall>c \<in> set s. is_space c" by auto
qed

lemma title_ok_trim: "title_ok s \<Longrightarrow> trim s = s"
  by (rule trim_unique [where pre = "[]" and post = "[]"]) (simp_all add: title_ok_def)

lemma title_ok_of_trim: "trim s \<noteq> [] \<Longrightarrow> length (trim s) \<le> 200 \<Longrightarrow> title_ok (trim s)"
  by (simp add: title_ok_def trim_ends)

lemma validateTitle_Inr:
  "validateTitle v = Inr s \<Longrightarrow> v = Some (PStr s) \<and> trim s \<noteq> [] \<and> length (trim s) \<le> 200"
  by (cases v rule: validateTitle.cases) (auto simp: Let_def split: if_splits)

lemma validateTitle_ok:
  "title_ok s \<Longrightarrow> validateTitle (Some (PStr s)) = Inr s"
  by (frule title_ok_trim) (auto simp: title_ok_def Let_def)

lemma validateTitle_Inl:
  "validateTitle v = Inl e \<Longrightarrow> e \<in> {TitleRequired, TitleEmpty, TitleTooLong}"
  by (cases v rule: validateTitle.cases) (auto simp: Let_def split: if_splits)

lemma validateTitle_accepts_iff:
  "(\<exists>s'. validateTitle v = Inr s') \<longleftrightarrow> (\<exists>s. v = Some (PStr s) \<and> trim s \<noteq> [] \<and> length (trim s) \<le> 200)"
proof
  assume "\<exists>s'. validateTitle v = Inr s'"
  then show "\<exists>s. v = Some (PStr s) \<and> trim s \<noteq> [] \<and> length (trim s) \<le> 200"
    using validateTitle_Inr by blast
next
  assume "\<exists>s. v = Some (PStr s) \<and> trim s \<noteq> [] \<and> length (trim s) \<le> 200"
  then obtain s where s: "v = Some (PStr s)" "trim s \<noteq> []" "length (trim s) \<le> 200" by blast
  then have "s \<noteq> []" by (auto simp: trim_def)
  with s show "\<exists>s'. validateTitle v = Inr s'"
    by (auto simp: Let_def)
qed

lemma Task_new_Inr:
  "Task_new g d = Inr t \<Longrightarrow> \<exists>s. d_title d = Some (PStr s) \<and> title t = trim s \<and> title_ok (trim s)"
  by (auto simp: Task_new_def title_ok_of_trim split: sum.splits dest!: validateTitle_Inr)

lemma Task_new_title_ok: "Task_new g d = Inr t \<Longrightarrow> title_ok (title t)"
  using Task_new_Inr by fastforce

lemma Task_new_Inl:
  "Task_new g d = Inl e \<Longrightarrow> e \<in> {TitleRequired, TitleEmpty, TitleTooLong}"
  by (auto simp: Task_new_def split: sum.splits dest: validateTitle_Inl)

lemma Task_new_task_ok: "draw_ok g \<Longrightarrow> Task_new g d = Inr t \<Longrightarrow> task_ok t"
  by (frule Task_new_title_ok[rotated -1])
     (auto simp: Task_new_def task_ok_def draw_ok_def Let_def split: sum.splits)

lemma Task_new_toJSON: "task_ok t \<Longrightarrow> Task_new g (toJSON t) = Inr t"
  by (simp add: Task_new_def toJSON_def task_ok_def validateTitle_ok title_ok_trim Let_def
      del: validateTitle.simps)

section \<open>The title invariant\<close>

text \<open>
  Claim C7. Every task that the constructor, \<open>updateTitle\<close>, \<open>updateOrder\<close>,
  \<open>toggleCompleted\<close> or \<open>fromJSON\<close> returns has a title that is not empty, has no white
  space at either end and is at most 200 code units long; it is the given string without
  the white space at its ends. The constructor throws one of its three title errors
  exactly when the title is missing, is not a string, is empty after trimming or is longer
  than 200 code units after trimming; it throws nothing else. Trimming removes the longest
  runs of white space, in the sense of ECMAScript, from both ends.
\<close>

theorem title_invariant:
  "(Task_new g d = Inr t \<longrightarrow> title_ok (title t))
   \<and> (updateTitle g t0 v = Inr t \<longrightarrow> title_ok (title t))
   \<and> (updateOrder g t0 w = Inr t \<longrightarrow> title_ok (title t))
   \<and> (toggleCompleted g t0 = Inr t \<longrightarrow> title_ok (title t))
   \<and> (fromJSON g e = Inr t \<longrightarrow> title_ok (title t))
   \<and> ((\<exists>err. Task_new g d = Inl err) \<longleftrightarrow>
        (d_title d = None
         \<or> (\<exists>p. d_title d = Some p \<and> (\<forall>s. p \<noteq> PStr s))
         \<or> (\<exists>s. d_title d = Some (PStr s) \<and> (trim s = [] \<or> length (trim s) > 200))))
   \<and> (Task_new g d = Inl err \<longrightarrow> err \<in> {TitleRequired, TitleEmpty, TitleTooLong})
   \<and> (Task_new g d = Inr t \<longrightarrow> (\<exists>s. d_title d = Some (PStr s) \<and> title t = trim s))
   \<and> (\<exists>pre post. s = pre @ trim s @ post
         \<and> (\<forall>c \<in> set pre. is_space c) \<and> (\<forall>c \<in> set post. is_space c)
         \<and> (trim s = [] \<or> (\<not> is_space (hd (trim s)) \<and> \<not> is_space (last (trim s)))))"
proof -
  have 1: "Task_new g d = Inr t \<longrightarrow> title_ok (title t)"
    by (simp add: Task_new_title_ok)
  have 2: "updateTitle g t0 v = Inr t \<longrightarrow> title_ok (title t)"
    unfolding updateTitle_def by (simp add: Task_new_title_ok)
  have 3: "updateOrder g t0 w = Inr t \<longrightarrow> title_ok (title t)"
    unfolding updateOrder_def by (simp add: Task_new_title_ok)
  have 4: "toggleCompleted g t0 = Inr t \<longrightarrow> title_ok (title t)"
    unfolding toggleCompleted_def by (simp add: Task_new_title_ok)
  have 5: "fromJSON g e = Inr t \<longrightarrow> title_ok (title t)"
    by (cases e) (simp_all add: Task_new_title_ok)
  have acc: "(\<exists>t'. Task_new g d = Inr t') \<longleftrightarrow> (\<exists>s'. validateTitle (d_title d) = Inr s')"
    by (auto simp: Task_new_def split: sum.splits)
  have "(\<exists>err. Task_new g d = Inl err) \<longleftrightarrow> \<not> (\<exists>t'. Task_new g d = Inr t')"
    by (cases "Task_new g d") auto
  also have "\<dots> \<longleftrightarrow> \<not> (\<exists>s. d_title d = Some (PStr s) \<and> trim s \<noteq> [] \<and> length (trim s) \<le> 200)"
    by (simp only: acc validateTitle_accepts_iff)
  also have "\<dots> \<longleftrightarrow> (d_title d = None
         \<or> (\<exists>p. d_title d = Some p \<and> (\<forall>s. p \<noteq> PStr s))
         \<or> (\<exists>s. d_title d = Some (PStr s) \<and> (trim s = [] \<or> length (trim s) > 200)))"
  proof (cases "d_title d")
    case None
    then show ?thesis by simp
  next
    case (Some p)
    then show ?thesis by (cases p) auto
  qed
  finally have 6: "(\<exists>err. Task_new g d = Inl err) \<longleftrightarrow>
        (d_title d = None
         \<or> (\<exists>p. d_title d = Some p \<and> (\<forall>s. p \<noteq> PStr s))
         \<or> (\<exists>s. d_title d = Some (PStr s) \<and> (trim s = [] \<or> length (trim s) > 200)))" .
  have 7: "Task_new g d = Inl err \<longrightarrow> err \<in> {TitleRequired, TitleEmpty, TitleTooLong}"
    using Task_new_Inl by blast
  have 8: "Task_new g d = Inr t \<longrightarrow> (\<exists>s. d_title d = Some (PStr s) \<and> title t = trim s)"
    using Task_new_Inr by blast
  have 9: "\<exists>pre post. s = pre @ trim s @ post
         \<and> (\<forall>c \<in> set pre. is_space c) \<and> (\<forall>c \<in> set post. is_space c)
         \<and> (trim s = [] \<or> (\<not> is_space (hd (trim s)) \<and> \<not> is_space (last (trim s))))"
    using trim_decomp [of s] trim_ends [of s] by blast
  show ?thesis
    by (intro conjI 1 2 3 4 5 6 7 8 9)
qed

theorem title_invariant_witness:
  "Task_new \<lparr>randomUUID = str ''u1'', Date_now = 1700000000000\<rparr>
      \<lparr>d_title = Some (PStr (0xA0 # str '' Buy milk '')), d_completed = None, d_id = None,
        d_createdAt = None, d_order = None\<rparr>
     = Inr \<lparr>task_id = PStr (str ''u1''), title = str ''Buy milk'', completed = False,
            createdAt = PNum 1700000000000, order = PNum 0\<rparr>
   \<and> title_ok (str ''Buy milk'')
   \<and> Task_new \<lparr>randomUUID = str ''u1'', Date_now = 1700000000000\<rparr>
      \<lparr>d_title = Some (PStr [0x20, 0xA0, 0x3000]), d_completed = None, d_id = None,
        d_createdAt = None, d_order = None\<rparr> = Inl TitleEmpty"
  using title_invariant [of "\<lparr>randomUUID = str ''u1'', Date_now = 1700000000000\<rparr>"
      "\<lparr>d_title = Some (PStr (0xA0 # str '' Buy milk '')), d_completed = None, d_id = None,
        d_createdAt = None, d_order = None\<rparr>"
      "\<lparr>task_id = PStr (str ''u1''), title = str ''Buy milk'', completed = False,
            createdAt = PNum 1700000000000, order = PNum 0\<rparr>"]
  by (simp add: Task_new_def trim_def is_space_def str_def Let_def)

section \<open>Reading a well-formed repository\<close>

lemma copy_task_ok: "task_ok t \<Longrightarrow> fromJSON g (Elem (toJSON t)) = Inr t"
  by (simp add: Task_new_toJSON)

lemma traverse_same:
  "(\<And>j x. x \<in> set xs \<Longrightarrow> f j x = Inr x) \<Longrightarrow> traverse f i xs = Inr xs"
  by (induction xs arbitrary: i) simp_all

lemma repo_ok_values: "repo_ok r \<Longrightarrow> t \<in> set (Map_values (tasks r)) \<Longrightarrow> task_ok t"
  by (auto simp: repo_ok_def Map_values_def)

lemma repo_ok_get:
  "repo_ok r \<Longrightarrow> Map_get (tasks r) k = Some t \<Longrightarrow> task_ok t \<and> k = Some (task_id t)"
  by (auto simp: repo_ok_def Map_get_def split: option.splits dest!: map_of_SomeD)

lemma findAll_ok: "repo_ok r \<Longrightarrow> findAll G r = Inr (Map_values (tasks r))"
  unfolding findAll_def by (rule traverse_same) (metis copy_task_ok repo_ok_values)


lemma findById_ok:
  assumes ok: "repo_ok r"
  shows "findById g r k = Inr (Map_get (tasks r) k)"
proof (cases "Map_get (tasks r) k")
  case None
  then show ?thesis by (simp add: findById_def)
next
  case (Some t)
  with ok have "task_ok t" by (simp add: repo_ok_get)
  then have "fromJSON g (Elem (toJSON t)) = Inr t" by (rule copy_task_ok)
  with Some show ?thesis by (simp add: findById_def del: fromJSON.simps)
qed

lemma ensureTaskExists_ok:
  "repo_ok r \<Longrightarrow>
   ensureTaskExists g r k = (case Map_get (tasks r) k of None \<Rightarrow> Inl (TaskNotFound k) | Some t \<Rightarrow> Inr t)"
  by (simp add: ensureTaskExists_def findById_ok split: option.splits)

lemma ensureTaskExists_absent:
  "Map_get (tasks r) k = None \<Longrightarrow> ensureTaskExists g r k = Inl (TaskNotFound k)"
  by (simp add: ensureTaskExists_def findById_def)

lemma update_fresh: "k \<notin> fst ` set m \<Longrightarrow> AList.update k v m = m @ [(k, v)]"
  by (induction m) auto

lemma import_loop_export:
  "\<lbrakk>\<forall>t \<in> set ts. task_ok t; distinct (map task_id ts); set (map task_id ts) \<inter> fst ` set acc = {}\<rbrakk>
   \<Longrightarrow> import_loop G i (map (\<lambda>t. Elem (toJSON t)) ts) acc = Inr (acc @ map (\<lambda>t. (task_id t, t)) ts)"
proof (induction ts arbitrary: acc i)
  case Nil
  then show ?case by simp
next
  case (Cons t ts)
  have fresh: "task_id t \<notin> fst ` set acc" using Cons.prems(3) by auto
  have step: "Map_set acc (task_id t) t = acc @ [(task_id t, t)]"
    by (simp add: Map_set_def update_fresh fresh)
  have "import_loop G (Suc i) (map (\<lambda>t. Elem (toJSON t)) ts) (acc @ [(task_id t, t)])
        = Inr ((acc @ [(task_id t, t)]) @ map (\<lambda>t. (task_id t, t)) ts)"
    using Cons.prems by (intro Cons.IH) auto
  moreover have "fromJSON (G i) (Elem (toJSON t)) = Inr t"
    using Cons.prems(1) by (simp add: copy_task_ok del: fromJSON.simps)
  ultimately show ?case
    by (simp add: step del: fromJSON.simps)
qed

lemma repo_ok_entries: "repo_ok r \<Longrightarrow> map (\<lambda>t. (task_id t, t)) (Map_values (tasks r)) = tasks r"
  by (auto simp: repo_ok_def Map_values_def intro!: map_idI)

lemma repo_ok_ids: "repo_ok r \<Longrightarrow> map task_id (Map_values (tasks r)) = map fst (tasks r)"
  by (auto simp: repo_ok_def Map_values_def)

lemma jsonify_toJSON: "json_stable t \<Longrightarrow> jsonify_data (toJSON t) = toJSON t"
  by (simp add: json_stable_def jsonify_data_def toJSON_def)

lemma parse_export:
  assumes "\<forall>t \<in> set (Map_values (tasks r)). json_stable t"
  shows "JSON_parse (export r) = Inr (Some (map (\<lambda>t. Elem (toJSON t)) (Map_values (tasks r))))"
proof -
  have "map (jsonify_element \<circ> ((\<lambda>d. Elem (jsonify_data d)) \<circ> toJSON)) (Map_values (tasks r))
        = map (\<lambda>t. Elem (toJSON t)) (Map_values (tasks r))"
    using assms by (intro map_cong) (simp_all add: jsonify_toJSON)
  then show ?thesis
    by (simp add: export_def JSON_stringify_def)
qed

lemma import_loop_roundtrip:
  assumes "repo_ok r"
  shows "import_loop G 0 (map (\<lambda>t. Elem (toJSON t)) (Map_values (tasks r))) [] = Inr (tasks r)"
proof -
  have "import_loop G 0 (map (\<lambda>t. Elem (toJSON t)) (Map_values (tasks r))) []
        = Inr ([] @ map (\<lambda>t. (task_id t, t)) (Map_values (tasks r)))"
    using assms by (intro import_loop_export) (auto simp: repo_ok_values repo_ok_ids repo_ok_def)
  then show ?thesis
    using assms by (simp add: repo_ok_entries)
qed

lemma accepting_sel: "rejects accepting held jsonString = None" "item accepting = None"
  by (simp_all add: accepting_def)

lemma full_sel: "rejects full held jsonString = Some QuotaExceededError" "item full = None"
  by (simp_all add: full_def)

lemma example_repo_ok: "repo_ok (example_repo st)"
  by (simp add: repo_ok_def example_repo_def example_task_def task_ok_def title_ok_def
      is_space_def str_def)

lemma example_repo_stable: "\<forall>t \<in> set (Map_values (tasks (example_repo st))). json_stable t"
  by (simp add: example_repo_def example_task_def Map_values_def json_stable_def)

section \<open>Export and import\<close>

lemma epoch_new:
  "Task_new h (toJSON epoch_task) = Inr (epoch_task\<lparr>createdAt := PNum (Date_now h)\<rparr>)"
  by (simp add: Task_new_def toJSON_def epoch_task_def trim_def is_space_def str_def)

lemma epoch_import:
  "import G epoch_repo (export epoch_repo)
     = (Inr 1, \<lparr> tasks = [(PStr (str ''a''), epoch_task\<lparr>createdAt := PNum (Date_now (G 0))\<rparr>)],
                 store = accepting\<lparr>item := Some (JSON_stringify
                    [toJSON (epoch_task\<lparr>createdAt := PNum (Date_now (G 0))\<rparr>)])\<rparr> \<rparr>)"
proof -
  have st: "jsonify_data (toJSON epoch_task) = toJSON epoch_task"
    by (simp add: jsonify_data_def toJSON_def epoch_task_def)
  show ?thesis
    by (simp add: import_def export_def epoch_repo_def JSON_stringify_def Map_values_def st
        epoch_new Map_set_def setItem_def persist_def Let_def accepting_sel)
       (simp add: epoch_task_def)
qed

text \<open>
  A task whose \<open>createdAt\<close> is 0 is stored when the clock reads 0 at its creation.
\<close>

lemma epoch_repo_reachable:
  "createTask \<lparr> randomUUID = str ''a'', Date_now = 0 \<rparr> \<lparr> tasks = [], store = accepting \<rparr>
      (Some (PStr (str ''Buy milk'')))
     = (Inr epoch_task,
        epoch_repo\<lparr>store := accepting\<lparr>item := Some (JSON_stringify [toJSON epoch_task])\<rparr>\<rparr>)"
  by (simp add: createTask_def Task_new_def trim_def is_space_def str_def save_def persist_def
      setItem_def epoch_repo_def epoch_task_def Map_get_def Map_set_def
      Map_values_def Let_def accepting_sel)

text \<open>
  Claim C4, as stated, fails on the repository that holds one task created while the clock
  read 0: the import of its export succeeds with size 1, and the tuple of the task it
  leaves differs from the original one in \<open>createdAt\<close>.
\<close>

theorem export_import_epoch_counterexample:
  "tasks (snd (createTask \<lparr> randomUUID = str ''a'', Date_now = 0 \<rparr>
                 \<lparr> tasks = [], store = accepting \<rparr> (Some (PStr (str ''Buy milk'')))))
     = tasks epoch_repo
   \<and> fst (import example_draws epoch_repo (export epoch_repo)) = Inr 1
   \<and> mset (map tuple (Map_values (tasks (snd (import example_draws epoch_repo (export epoch_repo))))))
       \<noteq> mset (map tuple (Map_values (tasks epoch_repo)))"
  by (simp add: epoch_repo_reachable epoch_import Map_values_def tuple_def)
     (simp add: epoch_repo_def epoch_task_def example_draws_def Map_values_def tuple_def)

text \<open>
  Claim C4, amended. For every well-formed collection (distinct ids, every task with a
  truthy id and \<open>createdAt\<close> and a valid title) whose fields hold neither \<open>NaN\<close> nor an
  infinity, in whatever insertion order, importing the exported text into a repository
  whose storage accepts the two writes of that text succeeds, returns the size of the
  collection and leaves a collection with the same tasks in the same order, hence with the
  same multiset of \<open>(id, title, completed, createdAt, order)\<close> tuples; the storage holds
  the exported text.
\<close>

theorem export_import_roundtrip:
  assumes ok: "repo_ok r"
    and stable: "\<forall>t \<in> set (Map_values (tasks r)). json_stable t"
    and first: "\<not> write_rejected r2 (tasks r)"
    and second: "\<not> write_rejected (written r2 (tasks r)) (tasks r)"
  shows "\<exists>r'. import G r2 (export r) = (Inr (length (tasks r)), r')
           \<and> tasks r' = tasks r
           \<and> mset (map tuple (Map_values (tasks r'))) = mset (map tuple (Map_values (tasks r)))
           \<and> item (store r') = Some (export r)"
proof -
  let ?txt = "JSON_stringify (map toJSON (Map_values (tasks r)))"
  have parse: "JSON_parse (export r) = Inr (Some (map (\<lambda>t. Elem (toJSON t)) (Map_values (tasks r))))"
    using stable by (rule parse_export)
  have loop: "import_loop G 0 (map (\<lambda>t. Elem (toJSON t)) (Map_values (tasks r))) [] = Inr (tasks r)"
    using ok by (rule import_loop_roundtrip)
  have set1: "setItem (store r2) ?txt = Inr ((store r2)\<lparr>item := Some ?txt\<rparr>)"
    using first by (simp add: setItem_def write_rejected_def)
  let ?r1 = "r2\<lparr>store := (store r2)\<lparr>item := Some ?txt\<rparr>, tasks := tasks r\<rparr>"
  have p: "persist ?r1 = Inr ?r1"
    using second by (simp add: persist_def setItem_def write_rejected_def written_def)
  have "import G r2 (export r) = (Inr (length (tasks r)), ?r1)"
    by (simp add: import_def parse loop set1 p Let_def)
  then show ?thesis
    by (simp add: export_def)
qed

theorem export_import_roundtrip_witness:
  "repo_ok (example_repo accepting)
   \<and> list_all json_stable (Map_values (tasks (example_repo accepting)))
   \<and> \<not> write_rejected (example_repo accepting) (tasks (example_repo accepting))
   \<and> \<not> write_rejected (written (example_repo accepting) (tasks (example_repo accepting)))
          (tasks (example_repo accepting))
   \<and> (\<exists>r'. import example_draws (example_repo accepting) (export (example_repo accepting))
              = (Inr (length (tasks (example_repo accepting))), r')
            \<and> tasks r' = tasks (example_repo accepting))"
proof -
  have h1: "repo_ok (example_repo accepting)"
    by (rule example_repo_ok)
  have h0: "\<forall>t \<in> set (Map_values (tasks (example_repo accepting))). json_stable t"
    by (rule example_repo_stable)
  have h2: "\<not> write_rejected (example_repo accepting) (tasks (example_repo accepting))"
    by (simp add: write_rejected_def example_repo_def accepting_sel)
  have h3: "\<not> write_rejected (written (example_repo accepting) (tasks (example_repo accepting)))
              (tasks (example_repo accepting))"
    by (simp add: write_rejected_def written_def example_repo_def accepting_sel)
  from h0 have h0': "list_all json_stable (Map_values (tasks (example_repo accepting)))"
    by (simp add: list_all_iff)
  from export_import_roundtrip [OF h1 h0 h2 h3, of example_draws] h1 h0' h2 h3 show ?thesis
    by blast
qed

section \<open>Search\<close>



lemma str_includes_empty: "str_includes h []"
  by (cases h) simp_all




lemma traverse_Nil_iff: "traverse f i xs = Inr [] \<longleftrightarrow> xs = []"
  by (cases xs) (auto split: sum.splits)

lemma findAll_Nil_iff: "findAll G r = Inr [] \<longleftrightarrow> tasks r = []"
  by (simp add: findAll_def traverse_Nil_iff Map_values_def)




text \<open>
  Claim C9, as stated, fails on the empty repository: the search for a single space
  returns the empty list.
\<close>

theorem searchTasks_whitespace_counterexample:
  "searchTasks fold_ascii example_draws \<lparr> tasks = [], store = accepting \<rparr> (Some (PStr (str '' '')))
     = Inr []"
  by (simp add: searchTasks_def findBy_def findAll_def Map_values_def str_def)

text \<open>
  Claim C9, amended. A search term that is not empty and consists of white space only
  (in the sense of ECMAScript) is trimmed to the empty string, which every title
  contains: the search returns what \<open>findAll\<close> returns, a fresh copy of every stored
  task, and so the empty list exactly when no task is stored. On a well-formed repository
  the copies are equal to the stored tasks. (Lower-casing maps the empty string to
  itself.)
\<close>

theorem searchTasks_whitespace:
  "s \<noteq> [] \<longrightarrow> (\<forall>c \<in> set s. is_space c) \<longrightarrow> L [] = [] \<longrightarrow>
     searchTasks L G r (Some (PStr s)) = findAll G r
     \<and> (searchTasks L G r (Some (PStr s)) = Inr [] \<longleftrightarrow> tasks r = [])
     \<and> (repo_ok r \<longrightarrow> searchTasks L G r (Some (PStr s)) = Inr (Map_values (tasks r)))"
proof (intro impI)
  assume ne: "s \<noteq> []" and sp: "\<forall>c \<in> set s. is_space c" and L: "L [] = []"
  from sp have "trim s = []" by (simp add: trim_spaces)
  then have eq: "searchTasks L G r (Some (PStr s)) = findAll G r"
    using ne L by (simp add: searchTasks_def findBy_def str_includes_empty split: sum.splits)
  then show "searchTasks L G r (Some (PStr s)) = findAll G r
     \<and> (searchTasks L G r (Some (PStr s)) = Inr [] \<longleftrightarrow> tasks r = [])
     \<and> (repo_ok r \<longrightarrow> searchTasks L G r (Some (PStr s)) = Inr (Map_values (tasks r)))"
    by (simp add: findAll_Nil_iff findAll_ok)
qed

theorem searchTasks_whitespace_witness:
  "repo_ok (example_repo accepting) \<and> [0x20, 0xA0, 0x2003 :: 16 word] \<noteq> []
   \<and> list_all is_space [0x20, 0xA0, 0x2003] \<and> fold_ascii [] = []
   \<and> searchTasks fold_ascii example_draws (example_repo accepting) (Some (PStr [0x20, 0xA0, 0x2003]))
       = Inr (Map_values (tasks (example_repo accepting)))
   \<and> searchTasks fold_ascii example_draws (example_repo accepting) (Some (PStr [0x20, 0xA0, 0x2003]))
       \<noteq> Inr []"
proof -
  have ok: "repo_ok (example_repo accepting)" by (rule example_repo_ok)
  have sp: "\<forall>c \<in> set [0x20, 0xA0, 0x2003 :: 16 word]. is_space c"
    by (simp add: is_space_def)
  have L: "fold_ascii [] = []" by (simp add: fold_ascii_def)
  have ne: "tasks (example_repo accepting) \<noteq> []" by (simp add: example_repo_def)
  from searchTasks_whitespace [of "[0x20, 0xA0, 0x2003]" fold_ascii example_draws
      "example_repo accepting"] ok sp L ne
  show ?thesis by (simp add: Map_values_def findAll_ok)
qed

section \<open>Generated identity fields\<close>

text \<open>
  Claim C10. When the constructor accepts a record whose id is falsy, the task gets the
  generated UUID; when the record's \<open>createdAt\<close> is falsy, the task gets the current
  time. So the record of a task with \<open>createdAt = 0\<close> is not reconstructed by
  \<open>fromJSON\<close> with that value, and exporting and importing a repository that holds such
  a task changes its \<open>createdAt\<close>, whenever the clock is not at 0.
\<close>

theorem falsy_identity_fields_replaced:
  "(Task_new g d = Inr t \<longrightarrow> \<not> truthy (default_to PNull (d_id d)) \<longrightarrow>
      task_id t = PStr (randomUUID g))
   \<and> (Task_new g d = Inr t \<longrightarrow> \<not> truthy (default_to PNull (d_createdAt d)) \<longrightarrow>
      createdAt t = PNum (Date_now g))
   \<and> (Date_now g \<noteq> 0 \<longrightarrow>
      (\<exists>t'. fromJSON g (Elem (toJSON epoch_task)) = Inr t' \<and> createdAt t' \<noteq> createdAt epoch_task))
   \<and> (Date_now (G 0) \<noteq> 0 \<longrightarrow>
      (\<exists>n r'. import G epoch_repo (export epoch_repo) = (Inr n, r')
         \<and> map createdAt (Map_values (tasks r')) \<noteq> map createdAt (Map_values (tasks epoch_repo))))"
proof -
  have 1: "Task_new g d = Inr t \<longrightarrow> \<not> truthy (default_to PNull (d_id d)) \<longrightarrow>
      task_id t = PStr (randomUUID g)"
    by (auto simp: Task_new_def Let_def split: sum.splits)
  have 2: "Task_new g d = Inr t \<longrightarrow> \<not> truthy (default_to PNull (d_createdAt d)) \<longrightarrow>
      createdAt t = PNum (Date_now g)"
    by (auto simp: Task_new_def Let_def split: sum.splits)
  have 3: "Date_now g \<noteq> 0 \<longrightarrow>
      (\<exists>t'. fromJSON g (Elem (toJSON epoch_task)) = Inr t' \<and> createdAt t' \<noteq> createdAt epoch_task)"
    by (simp add: epoch_new) (simp add: epoch_task_def)
  have 4: "Date_now (G 0) \<noteq> 0 \<longrightarrow>
      (\<exists>n r'. import G epoch_repo (export epoch_repo) = (Inr n, r')
         \<and> map createdAt (Map_values (tasks r')) \<noteq> map createdAt (Map_values (tasks epoch_repo)))"
    by (simp add: epoch_import Map_values_def) (simp add: epoch_repo_def epoch_task_def)
  from 1 2 3 4 show ?thesis by blast
qed

theorem falsy_identity_fields_replaced_witness:
  "Task_new (example_draws 0)
      \<lparr>d_title = Some (PStr (str ''Buy milk'')), d_completed = Some (PBool False),
        d_id = Some (PStr []), d_createdAt = Some (PNum 0), d_order = Some (PNum 0)\<rparr>
     = Inr \<lparr>task_id = PStr (str ''3f2c8a1e-generated''), title = str ''Buy milk'',
            completed = False, createdAt = PNum 1700000000999, order = PNum 0\<rparr>
   \<and> (\<exists>n r'. import example_draws epoch_repo (export epoch_repo) = (Inr n, r')
         \<and> map createdAt (Map_values (tasks r')) \<noteq> map createdAt (Map_values (tasks epoch_repo)))"
  using falsy_identity_fields_replaced [of "example_draws 0"
      "\<lparr>d_title = Some (PStr (str ''Buy milk'')), d_completed = Some (PBool False),
        d_id = Some (PStr []), d_createdAt = Some (PNum 0), d_order = Some (PNum 0)\<rparr>"
      "\<lparr>task_id = PStr (str ''3f2c8a1e-generated''), title = str ''Buy milk'',
            completed = False, createdAt = PNum 1700000000999, order = PNum 0\<rparr>" example_draws]
  by (simp add: Task_new_def example_draws_def trim_def is_space_def str_def)

section \<open>Statistics\<close>

text \<open>
  Claim C3. Over a \<open>TaskRepository\<close>, which has neither \<open>count\<close> nor \<open>countBy\<close>,
  the service's \<open>getStatistics\<close>, \<open>hasTask\<close>, \<open>hasCompletedTasks\<close> and
  \<open>hasPendingTasks\<close> throw a TypeError in every state of the repository.
\<close>

theorem aggregate_queries_raise:
  "getStatistics TaskRepository_aggregates r = Inl (NotAFunction ''count'')
   \<and> hasTask TaskRepository_aggregates r = Inl (NotAFunction ''count'')
   \<and> hasCompletedTasks TaskRepository_aggregates r = Inl (NotAFunction ''countBy'')
   \<and> hasPendingTasks TaskRepository_aggregates r = Inl (NotAFunction ''countBy'')"
  by (simp add: getStatistics_def hasTask_def hasCompletedTasks_def hasPendingTasks_def
      call_count_def call_countBy_def TaskRepository_aggregates_def)

lemma to_double_small: "to_double 1 = 1" "to_double 2 = 2" "to_double 3 = 3"
  by code_simp+

lemma toFixed1_third: "toFixed1 (to_double (to_double (1 / 3) * 100)) = ''33.3''"
  by code_simp

lemma Math_round_third: "Math_round (to_double (to_double (1 / 3) * 100)) = 33"
  by code_simp

text \<open>The doubles round where the exact quotient would not: 23 of 40 and 23 of 80.\<close>

lemma double_rounding:
  "Math_round (to_double (to_double (23 / 40) * 100)) = 57"
  "toFixed1 (to_double (to_double (23 / 80) * 100)) = ''28.7''"
  by code_simp+

lemma getStats_three_one:
  "length (tasks r) = 3 \<Longrightarrow> length (filter completed (Map_values (tasks r))) = 1 \<Longrightarrow>
   getStats r = \<lparr> rs_total = 3, rs_completed = 1, rs_pending = 2, rs_completionRate = ''33.3%'' \<rparr>"
  using toFixed1_third by (simp add: getStats_def Let_def to_double_small)

lemma getStatistics_conforming:
  "count A = Some c \<Longrightarrow> countBy A = Some cb \<Longrightarrow> c r = 3 \<Longrightarrow> cb r completed = 1 \<Longrightarrow>
   getStatistics A r
     = Inr \<lparr> sv_total = 3, sv_completed = 1, sv_pending = 2, sv_completionRate = 33 \<rparr>"
  using Math_round_third
  by (simp add: getStatistics_def call_count_def call_countBy_def Let_def to_double_small)

text \<open>
  Claim C2. On the example repository of three tasks, one of them completed, the
  repository's \<open>getStats\<close> returns the counts 3, 1, 2 and the rate \<open>33.3%\<close>, while the
  service's \<open>getStatistics\<close> over that repository throws instead of returning the rate
  33. (The lemma \<open>getStatistics_conforming\<close> above gives the rate 33 over a repository
  object that has \<open>count\<close> and \<open>countBy\<close>.)
\<close>

theorem statistics_of_example_repo:
  "getStatistics TaskRepository_aggregates (example_repo accepting) = Inl (NotAFunction ''count'')
   \<and> getStats (example_repo accepting)
       = \<lparr> rs_total = 3, rs_completed = 1, rs_pending = 2, rs_completionRate = ''33.3%'' \<rparr>"
proof -
  have "length (tasks (example_repo accepting)) = 3"
    by (simp add: example_repo_def)
  moreover have "length (filter completed (Map_values (tasks (example_repo accepting)))) = 1"
    by (simp add: example_repo_def example_task_def Map_values_def)
  ultimately show ?thesis
    by (simp add: getStats_three_one getStatistics_def call_count_def TaskRepository_aggregates_def)
qed

section \<open>Rejected writes\<close>

lemma restore_tasks [simp]: "r\<lparr>tasks := tasks r\<rparr> = r"
  by simp

lemma persist_Inl:
  "persist r = Inl e \<Longrightarrow> storage_rejection e \<and> write_rejected r (tasks r)"
  by (auto simp: persist_def setItem_def write_rejected_def split: option.splits)

lemma write_rejected_persist:
  "write_rejected r m \<Longrightarrow> \<exists>e. persist (r\<lparr>tasks := m\<rparr>) = Inl e \<and> storage_rejection e"
  by (auto simp: persist_def setItem_def write_rejected_def)

lemma Map_get_None_iff: "Map_get m (Some p) = None \<longleftrightarrow> p \<notin> fst ` set m"
  by (simp add: Map_get_def map_of_eq_None_iff)

lemma Map_has_get: "Map_has m k \<longleftrightarrow> Map_get m k \<noteq> None"
  by (cases k) (auto simp: Map_has_def Map_get_def map_of_eq_None_iff)

lemma save_rollback:
  "(case Map_get m (Some k) of
      None \<Rightarrow> Map_delete (Map_set m k t) (Some k)
    | Some p \<Rightarrow> Map_set (Map_set m k t) k p) = m"
proof (cases "Map_get m (Some k)")
  case None
  then have "k \<notin> fst ` set m" by (simp add: Map_get_None_iff)
  then have "Map_delete (Map_set m k t) (Some k) = m"
    by (simp add: Map_delete_def Map_set_def delete_update_same)
  with None show ?thesis by simp
next
  case (Some p)
  then have "map_of m k = Some p" by (simp add: Map_get_def)
  then have "Map_set (Map_set m k t) k p = m"
    by (simp add: Map_set_def update_triv)
  with Some show ?thesis by simp
qed

lemma save_failed:
  assumes "persist (r\<lparr>tasks := Map_set (tasks r) (task_id t) t\<rparr>) = Inl e"
  shows "save r (Instance t) = (Inl (SaveFailed e), r)"
proof (cases "Map_get (tasks r) (Some (task_id t))")
  case None
  with save_rollback [of "tasks r" "task_id t" t] assms show ?thesis
    by (simp add: save_def Let_def)
next
  case (Some p)
  with save_rollback [of "tasks r" "task_id t" t] assms show ?thesis
    by (simp add: save_def Let_def)
qed

lemma save_error_unchanged:
  assumes "fst (save r a) = Inl e"
  shows "snd (save r a) = r"
proof (cases a)
  case NotInstance
  then show ?thesis by (simp add: save_def)
next
  case (Instance t)
  show ?thesis
  proof (cases "persist (r\<lparr>tasks := Map_set (tasks r) (task_id t) t\<rparr>)")
    case (Inl x)
    with Instance show ?thesis by (simp add: save_failed)
  next
    case (Inr r2)
    with Instance assms show ?thesis by (simp add: save_def)
  qed
qed

lemma mset_delete_entry:
  "distinct (map fst m) \<Longrightarrow> map_of m p = Some t \<Longrightarrow> mset (AList.delete p m) + {#(p, t)#} = mset m"
proof (induction m)
  case Nil
  then show ?case by simp
next
  case (Cons a m)
  show ?case
  proof (cases "fst a = p")
    case True
    with Cons.prems have "a = (p, t)" "p \<notin> fst ` set m" by (cases a; auto)+
    then show ?thesis by (simp add: AList.delete_id)
  next
    case False
    with Cons show ?thesis by (cases a) (auto simp: AList.delete_eq)
  qed
qed

lemma map_of_delete_append:
  "map_of m p = Some t \<Longrightarrow> map_of (AList.delete p m @ [(p, t)]) = map_of m"
proof (rule ext)
  fix x
  assume a: "map_of m p = Some t"
  show "map_of (AList.delete p m @ [(p, t)]) x = map_of m x"
  proof (cases "x = p")
    case True
    then show ?thesis using a by (simp add: delete_conv' map_add_def)
  next
    case False
    then show ?thesis by (cases "map_of m x") (simp_all add: delete_conv' map_add_def)
  qed
qed

lemma repo_ok_reinserted:
  assumes ok: "repo_ok r" and get: "map_of (tasks r) p = Some t"
  shows "repo_ok (r\<lparr>tasks := AList.delete p (tasks r) @ [(p, t)]\<rparr>)"
proof -
  have "(p, t) \<in> set (tasks r)" using get by (rule map_of_SomeD)
  moreover have "set (AList.delete p (tasks r)) \<subseteq> set (tasks r)"
    by (auto simp: AList.delete_eq)
  moreover have "distinct (map fst (AList.delete p (tasks r)))"
    using ok by (simp add: repo_ok_def distinct_delete)
  moreover have "p \<notin> fst ` set (AList.delete p (tasks r))"
    by (rule delete_notin_dom)
  ultimately show ?thesis
    using ok by (auto simp: repo_ok_def)
qed

lemma delete_failed:
  assumes "Map_get (tasks r) (Some p) = Some t"
    and "persist (r\<lparr>tasks := Map_delete (tasks r) (Some p)\<rparr>) = Inl e"
  shows "delete r (Some p) = (Inl (DeleteFailed e), r\<lparr>tasks := AList.delete p (tasks r) @ [(p, t)]\<rparr>)"
proof -
  have "Map_set (Map_delete (tasks r) (Some p)) p t = AList.delete p (tasks r) @ [(p, t)]"
    by (simp add: Map_set_def Map_delete_def update_fresh delete_notin_dom)
  with assms show ?thesis by (simp add: delete_def)
qed

lemma delete_absent: "Map_get (tasks r) k = None \<Longrightarrow> delete r k = (Inr False, r)"
  by (cases k) (simp_all add: delete_def)

lemma same_content_reinserted:
  assumes ok: "repo_ok r" and get: "Map_get (tasks r) (Some p) = Some t"
  shows "same_content G G' r (r\<lparr>tasks := AList.delete p (tasks r) @ [(p, t)]\<rparr>)"
proof -
  let ?r' = "r\<lparr>tasks := AList.delete p (tasks r) @ [(p, t)]\<rparr>"
  from get have mo: "map_of (tasks r) p = Some t" by (simp add: Map_get_def)
  have ok': "repo_ok ?r'" using ok mo by (rule repo_ok_reinserted)
  have "distinct (map fst (tasks r))" using ok by (simp add: repo_ok_def)
  then have "mset (AList.delete p (tasks r)) + {#(p, t)#} = mset (tasks r)"
    using mo by (rule mset_delete_entry)
  then have "image_mset snd (mset (AList.delete p (tasks r)) + {#(p, t)#}) = image_mset snd (mset (tasks r))"
    by simp
  then have ms: "mset (Map_values (tasks ?r')) = mset (Map_values (tasks r))"
    by (simp add: Map_values_def)
  have "findAll G r = Inr (Map_values (tasks r))" using ok by (rule findAll_ok)
  moreover have "findAll G' ?r' = Inr (Map_values (tasks ?r'))" using ok' by (rule findAll_ok)
  moreover have "Map_get (tasks ?r') k = Map_get (tasks r) k" for k
    using map_of_delete_append [OF mo] by (cases k) (simp_all add: Map_get_def)
  ultimately show ?thesis
    using ms by (simp add: same_content_def)
qed

lemma same_content_refl: "repo_ok r \<Longrightarrow> same_content G G' r r"
  by (simp add: same_content_def findAll_ok)

lemma delete_error_content:
  assumes ok: "repo_ok r" and err: "fst (delete r k) = Inl e"
  shows "same_content G G' r (snd (delete r k)) \<and> store (snd (delete r k)) = store r"
proof (cases "Map_get (tasks r) k")
  case None
  with err show ?thesis by (simp add: delete_absent)
next
  case (Some t)
  then obtain p where k: "k = Some p" by (cases k) (auto simp: Map_get_def)
  show ?thesis
  proof (cases "persist (r\<lparr>tasks := Map_delete (tasks r) (Some p)\<rparr>)")
    case (Inl x)
    from Some k have get: "Map_get (tasks r) (Some p) = Some t" by simp
    from delete_failed [OF get Inl] same_content_reinserted [OF ok get, of G G'] k
    show ?thesis by simp
  next
    case (Inr r2)
    with Some k err show ?thesis by (simp add: delete_def)
  qed
qed

lemma deleteMany_loop_mono: "n \<le> snd (deleteMany_loop ks (m, n))"
proof (induction ks arbitrary: m n)
  case Nil
  then show ?case by simp
next
  case (Cons k ks)
  show ?case
  proof (cases "Map_has m k")
    case True
    have "n + 1 \<le> snd (deleteMany_loop ks (Map_delete m k, n + 1))" by (rule Cons.IH)
    with True show ?thesis by simp
  next
    case False
    with Cons.IH [of n m] show ?thesis by simp
  qed
qed

lemma deleteMany_loop_none:
  "\<forall>k \<in> set ks. \<not> Map_has m k \<Longrightarrow> deleteMany_loop ks (m, n) = (m, n)"
  by (induction ks) simp_all

lemma deleteMany_loop_some:
  "\<exists>k \<in> set ks. Map_has m k \<Longrightarrow> n < snd (deleteMany_loop ks (m, n))"
proof (induction ks arbitrary: m n)
  case Nil
  then show ?case by simp
next
  case (Cons k ks)
  show ?case
  proof (cases "Map_has m k")
    case True
    have "n + 1 \<le> snd (deleteMany_loop ks (Map_delete m k, n + 1))"
      by (rule deleteMany_loop_mono)
    with True show ?thesis by simp
  next
    case False
    with Cons.prems have "\<exists>k \<in> set ks. Map_has m k" by auto
    with Cons.IH [of m n] False show ?thesis by simp
  qed
qed

lemma deleteMany_failed:
  assumes "\<exists>k \<in> set ks. Map_has (tasks r) k"
    and "persist (r\<lparr>tasks := fst (deleteMany_loop ks (tasks r, 0))\<rparr>) = Inl e"
  shows "deleteMany r (Some ks) = (Inl (DeleteManyFailed e), r)"
proof -
  obtain m n where loop: "deleteMany_loop ks (tasks r, 0) = (m, n)"
    by (cases "deleteMany_loop ks (tasks r, 0)") auto
  with deleteMany_loop_some [OF assms(1), of 0] have "n \<noteq> 0" by simp
  with loop assms(2) show ?thesis
    by (simp add: deleteMany_def)
qed

lemma deleteMany_error_unchanged:
  assumes "fst (deleteMany r ids) = Inl e"
  shows "snd (deleteMany r ids) = r"
proof (cases ids)
  case None
  then show ?thesis by (simp add: deleteMany_def)
next
  case (Some ks)
  obtain m n where loop: "deleteMany_loop ks (tasks r, 0) = (m, n)"
    by (cases "deleteMany_loop ks (tasks r, 0)") auto
  show ?thesis
  proof (cases "n = 0")
    case True
    with Some loop assms show ?thesis by (simp add: deleteMany_def)
  next
    case False
    with Some loop assms show ?thesis
      by (cases "persist (r\<lparr>tasks := m\<rparr>)") (simp_all add: deleteMany_def)
  qed
qed

lemma clear_failed:
  assumes "tasks r \<noteq> []" and "persist (r\<lparr>tasks := []\<rparr>) = Inl e"
  shows "clear r = (Inl (ClearFailed e), r)"
  using assms by (simp add: clear_def)

lemma clear_error_unchanged:
  assumes "fst (clear r) = Inl e"
  shows "snd (clear r) = r"
proof (cases "tasks r = []")
  case True
  then show ?thesis by (simp add: clear_def)
next
  case False
  with assms show ?thesis
    by (cases "persist (r\<lparr>tasks := []\<rparr>)") (simp_all add: clear_def)
qed

lemma saveMany_loop_instances: "\<exists>m'. saveMany_loop (map Instance ts) m = Inr m'"
  by (induction ts arbitrary: m) simp_all

lemma saveMany_failed:
  assumes "saveMany_loop as (tasks r) = Inr m" and "persist (r\<lparr>tasks := m\<rparr>) = Inl e"
  shows "saveMany r (Some as) = (Inl (SaveManyFailed e), r)"
  using assms by (simp add: saveMany_def)

lemma saveMany_error_unchanged:
  assumes "fst (saveMany r args) = Inl e"
  shows "snd (saveMany r args) = r"
proof (cases args)
  case None
  then show ?thesis by (simp add: saveMany_def)
next
  case (Some as)
  show ?thesis
  proof (cases "saveMany_loop as (tasks r)")
    case (Inl x)
    with Some show ?thesis by (simp add: saveMany_def)
  next
    case (Inr m')
    with Some assms show ?thesis
      by (cases "persist (r\<lparr>tasks := m'\<rparr>)") (simp_all add: saveMany_def)
  qed
qed

lemma import_failed:
  assumes "import_loop G 0 (map jsonify_element es) [] = Inr m" and "write_rejected r m"
  shows "\<exists>x. import G r (Records es) = (Inl (ImportFailed (DOMException x)), r)"
proof -
  obtain x where
    "rejects (store r) (item (store r)) (JSON_stringify (map toJSON (Map_values m))) = Some x"
    using assms(2) by (auto simp: write_rejected_def)
  then have "setItem (store r) (JSON_stringify (map toJSON (Map_values m))) = Inl x"
    by (simp add: setItem_def)
  with assms(1) show ?thesis by (simp add: import_def)
qed

lemma import_first_write:
  assumes "import_loop G 0 (map jsonify_element es) [] = Inr m" and "\<not> write_rejected r m"
  shows "import G r (Records es)
         = (case persist ((written r m)\<lparr>tasks := m\<rparr>) of
              Inr r2 \<Rightarrow> (Inr (length (tasks r2)), r2)
            | Inl e \<Rightarrow> (Inl (ImportFailed e), written r m))"
proof -
  have "setItem (store r) (JSON_stringify (map toJSON (Map_values m)))
        = Inr ((store r)\<lparr>item := Some (JSON_stringify (map toJSON (Map_values m)))\<rparr>)"
    using assms(2) by (simp add: setItem_def write_rejected_def)
  with assms(1) show ?thesis
    by (cases "persist ((written r m)\<lparr>tasks := m\<rparr>)")
       (simp_all add: import_def written_def Let_def)
qed

lemma import_second_failed:
  assumes "import_loop G 0 (map jsonify_element es) [] = Inr m" and "\<not> write_rejected r m"
    and "write_rejected (written r m) m"
  shows "\<exists>e. import G r (Records es) = (Inl (ImportFailed e), written r m) \<and> storage_rejection e"
proof -
  obtain e where "persist ((written r m)\<lparr>tasks := m\<rparr>) = Inl e" "storage_rejection e"
    using write_rejected_persist [OF assms(3)] by blast
  then show ?thesis
    by (simp add: import_first_write [OF assms(1,2)])
qed

lemma import_error_unchanged:
  assumes "fst (import G r jsonString) = Inl e"
  shows "tasks (snd (import G r jsonString)) = tasks r"
proof (cases jsonString)
  case Malformed
  then show ?thesis by (simp add: import_def)
next
  case NonArray
  then show ?thesis by (simp add: import_def)
next
  case (Records es)
  show ?thesis
  proof (cases "import_loop G 0 (map jsonify_element es) []")
    case (Inl x)
    with Records show ?thesis by (simp add: import_def)
  next
    case (Inr m)
    show ?thesis
    proof (cases "write_rejected r m")
      case True
      from import_failed [OF Inr True] Records show ?thesis by auto
    next
      case False
      show ?thesis
      proof (cases "persist ((written r m)\<lparr>tasks := m\<rparr>)")
        case (Inl x)
        with Records show ?thesis
          by (simp add: import_first_write [OF Inr False] written_def)
      next
        case Inr2: (Inr r2)
        with Records assms show ?thesis
          by (simp add: import_first_write [OF Inr False])
      qed
    qed
  qed
qed

lemma full_rejects: "write_rejected (example_repo full) m"
  by (simp add: write_rejected_def example_repo_def full_sel)

lemma delete_rollback_order:
  "delete (example_repo full) (Some (PStr (str ''a'')))
     = (Inl (DeleteFailed StorageFull),
        \<lparr> tasks = [example_task ''b'' ''Write report'' True 1,
                   example_task ''c'' ''Call Ana'' False 0,
                   example_task ''a'' ''Buy milk'' False 2],
          store = full \<rparr>)"
  by (simp add: delete_def example_repo_def example_task_def Map_get_def Map_delete_def
      Map_set_def persist_def setItem_def full_sel Let_def str_def)

text \<open>
  What a rejected write leaves behind, method by method. \<open>save\<close>, \<open>deleteMany\<close>,
  \<open>clear\<close> and \<open>saveMany\<close> throw their persistence error and return the state before
  the call, and this holds for every error they throw; \<open>import\<close> leaves the map as it
  was for every error it throws, and the storage too unless its first write was accepted.
  \<open>delete\<close> puts the task back with \<open>Map.set\<close>: the stored id is deleted and the
  entry appended, so the same tasks are held under the same ids, in another order.
\<close>

lemma rejected_write_rollback:
  "(write_rejected r (Map_set (tasks r) (task_id t) t) \<longrightarrow>
      (\<exists>e. save r (Instance t) = (Inl e, r) \<and> PersistenceError e))
   \<and> (Map_get (tasks r) (Some p) = Some td \<longrightarrow>
       write_rejected r (Map_delete (tasks r) (Some p)) \<longrightarrow>
      (\<exists>e. delete r (Some p) = (Inl e, r\<lparr>tasks := AList.delete p (tasks r) @ [(p, td)]\<rparr>)
         \<and> PersistenceError e))
   \<and> ((\<exists>k \<in> set ks. Map_has (tasks r) k) \<longrightarrow>
       write_rejected r (fst (deleteMany_loop ks (tasks r, 0))) \<longrightarrow>
      (\<exists>e. deleteMany r (Some ks) = (Inl e, r) \<and> PersistenceError e))
   \<and> (tasks r \<noteq> [] \<longrightarrow> write_rejected r [] \<longrightarrow>
      (\<exists>e. clear r = (Inl e, r) \<and> PersistenceError e))
   \<and> (saveMany_loop (map Instance ts) (tasks r) = Inr m \<longrightarrow> write_rejected r m \<longrightarrow>
      (\<exists>e. saveMany r (Some (map Instance ts)) = (Inl e, r) \<and> PersistenceError e))
   \<and> (import_loop G 0 (map jsonify_element es) [] = Inr mi \<longrightarrow> write_rejected r mi \<longrightarrow>
      (\<exists>e. import G r (Records es) = (Inl e, r) \<and> PersistenceError e))
   \<and> (import_loop G 0 (map jsonify_element es) [] = Inr mi \<longrightarrow> \<not> write_rejected r mi \<longrightarrow>
       write_rejected (written r mi) mi \<longrightarrow>
      (\<exists>e r'. import G r (Records es) = (Inl e, r') \<and> PersistenceError e
         \<and> tasks r' = tasks r))
   \<and> (fst (save r a) = Inl ea \<longrightarrow> snd (save r a) = r)
   \<and> (repo_ok r \<longrightarrow> fst (delete r kd) = Inl eb \<longrightarrow>
        same_content G G' r (snd (delete r kd)) \<and> store (snd (delete r kd)) = store r)
   \<and> (fst (deleteMany r ids) = Inl ec \<longrightarrow> snd (deleteMany r ids) = r)
   \<and> (fst (clear r) = Inl ed \<longrightarrow> snd (clear r) = r)
   \<and> (fst (saveMany r args) = Inl ee \<longrightarrow> snd (saveMany r args) = r)
   \<and> (fst (import G r jsonString) = Inl ef \<longrightarrow> tasks (snd (import G r jsonString)) = tasks r)"
proof -
  have 1: "write_rejected r (Map_set (tasks r) (task_id t) t) \<longrightarrow>
      (\<exists>e. save r (Instance t) = (Inl e, r) \<and> PersistenceError e)"
  proof
    assume "write_rejected r (Map_set (tasks r) (task_id t) t)"
    then obtain e where "persist (r\<lparr>tasks := Map_set (tasks r) (task_id t) t\<rparr>) = Inl e"
      "storage_rejection e" using write_rejected_persist by blast
    then show "\<exists>e. save r (Instance t) = (Inl e, r) \<and> PersistenceError e"
      by (auto simp: save_failed)
  qed
  have 2: "Map_get (tasks r) (Some p) = Some td \<longrightarrow>
       write_rejected r (Map_delete (tasks r) (Some p)) \<longrightarrow>
      (\<exists>e. delete r (Some p) = (Inl e, r\<lparr>tasks := AList.delete p (tasks r) @ [(p, td)]\<rparr>)
         \<and> PersistenceError e)"
  proof (intro impI)
    assume get: "Map_get (tasks r) (Some p) = Some td"
      and w: "write_rejected r (Map_delete (tasks r) (Some p))"
    from w obtain e where e: "persist (r\<lparr>tasks := Map_delete (tasks r) (Some p)\<rparr>) = Inl e"
      "storage_rejection e" using write_rejected_persist by blast
    from delete_failed [OF get e(1)] e(2)
    show "\<exists>e. delete r (Some p) = (Inl e, r\<lparr>tasks := AList.delete p (tasks r) @ [(p, td)]\<rparr>)
         \<and> PersistenceError e"
      by auto
  qed
  have 3: "(\<exists>k \<in> set ks. Map_has (tasks r) k) \<longrightarrow>
       write_rejected r (fst (deleteMany_loop ks (tasks r, 0))) \<longrightarrow>
      (\<exists>e. deleteMany r (Some ks) = (Inl e, r) \<and> PersistenceError e)"
  proof (intro impI)
    assume has: "\<exists>k \<in> set ks. Map_has (tasks r) k"
      and "write_rejected r (fst (deleteMany_loop ks (tasks r, 0)))"
    then obtain e where e: "persist (r\<lparr>tasks := fst (deleteMany_loop ks (tasks r, 0))\<rparr>) = Inl e"
      "storage_rejection e" using write_rejected_persist by blast
    from deleteMany_failed [OF has e(1)] e(2)
    show "\<exists>e. deleteMany r (Some ks) = (Inl e, r) \<and> PersistenceError e" by auto
  qed
  have 4: "tasks r \<noteq> [] \<longrightarrow> write_rejected r [] \<longrightarrow>
      (\<exists>e. clear r = (Inl e, r) \<and> PersistenceError e)"
  proof (intro impI)
    assume ne: "tasks r \<noteq> []" and "write_rejected r []"
    then obtain e where e: "persist (r\<lparr>tasks := []\<rparr>) = Inl e" "storage_rejection e"
      using write_rejected_persist by blast
    from clear_failed [OF ne e(1)] e(2)
    show "\<exists>e. clear r = (Inl e, r) \<and> PersistenceError e" by auto
  qed
  have 5: "saveMany_loop (map Instance ts) (tasks r) = Inr m \<longrightarrow> write_rejected r m \<longrightarrow>
      (\<exists>e. saveMany r (Some (map Instance ts)) = (Inl e, r) \<and> PersistenceError e)"
  proof (intro impI)
    assume loop: "saveMany_loop (map Instance ts) (tasks r) = Inr m" and "write_rejected r m"
    then obtain e where e: "persist (r\<lparr>tasks := m\<rparr>) = Inl e" "storage_rejection e"
      using write_rejected_persist by blast
    from saveMany_failed [OF loop e(1)] e(2)
    show "\<exists>e. saveMany r (Some (map Instance ts)) = (Inl e, r) \<and> PersistenceError e" by auto
  qed
  have 6: "import_loop G 0 (map jsonify_element es) [] = Inr mi \<longrightarrow> write_rejected r mi \<longrightarrow>
      (\<exists>e. import G r (Records es) = (Inl e, r) \<and> PersistenceError e)"
  proof (intro impI)
    assume "import_loop G 0 (map jsonify_element es) [] = Inr mi" and "write_rejected r mi"
    from import_failed [OF this]
    show "\<exists>e. import G r (Records es) = (Inl e, r) \<and> PersistenceError e" by auto
  qed
  have second: "import_loop G 0 (map jsonify_element es) [] = Inr mi \<longrightarrow> \<not> write_rejected r mi \<longrightarrow>
       write_rejected (written r mi) mi \<longrightarrow>
      (\<exists>e r'. import G r (Records es) = (Inl e, r') \<and> PersistenceError e
         \<and> tasks r' = tasks r)"
  proof (intro impI)
    assume "import_loop G 0 (map jsonify_element es) [] = Inr mi" and "\<not> write_rejected r mi"
      and "write_rejected (written r mi) mi"
    from import_second_failed [OF this]
    show "\<exists>e r'. import G r (Records es) = (Inl e, r') \<and> PersistenceError e
         \<and> tasks r' = tasks r"
      by (auto simp: written_def)
  qed
  have 7: "fst (save r a) = Inl ea \<longrightarrow> snd (save r a) = r"
    using save_error_unchanged by blast
  have 8: "repo_ok r \<longrightarrow> fst (delete r kd) = Inl eb \<longrightarrow>
        same_content G G' r (snd (delete r kd)) \<and> store (snd (delete r kd)) = store r"
    using delete_error_content by blast
  have 9: "fst (deleteMany r ids) = Inl ec \<longrightarrow> snd (deleteMany r ids) = r"
    using deleteMany_error_unchanged by blast
  have 10: "fst (clear r) = Inl ed \<longrightarrow> snd (clear r) = r"
    using clear_error_unchanged by blast
  have 11: "fst (saveMany r args) = Inl ee \<longrightarrow> snd (saveMany r args) = r"
    using saveMany_error_unchanged by blast
  have 12: "fst (import G r jsonString) = Inl ef \<longrightarrow> tasks (snd (import G r jsonString)) = tasks r"
    using import_error_unchanged by blast
  show ?thesis
    by (intro conjI 1 2 3 4 5 6 second 7 8 9 10 11 12)
qed

text \<open>
  Claim C1. The claim does not hold of \<open>delete\<close>. On the repository holding the tasks
  a, b, c in this order, over a storage that rejects every write, \<open>delete\<close> of the id a
  throws its persistence error (the part of the claim that holds) and leaves a
  repository whose \<open>findAll\<close> returns b, c, a: the catch block puts the task back with
  \<open>Map.set\<close> on the map it was deleted from, so it becomes the last entry, while the
  five other methods restore the map they had before the call. \<open>findAll\<close> therefore
  does not return after the failed call what it returned before it.
\<close>

theorem failed_delete_reorders:
  "fst (delete (example_repo full) (Some (PStr (str ''a'')))) = Inl (DeleteFailed StorageFull)
   \<and> PersistenceError (DeleteFailed StorageFull)
   \<and> findAll example_draws (example_repo full)
       = Inr (map snd [example_task ''a'' ''Buy milk'' False 2,
                       example_task ''b'' ''Write report'' True 1,
                       example_task ''c'' ''Call Ana'' False 0])
   \<and> findAll example_draws (snd (delete (example_repo full) (Some (PStr (str ''a'')))))
       = Inr (map snd [example_task ''b'' ''Write report'' True 1,
                       example_task ''c'' ''Call Ana'' False 0,
                       example_task ''a'' ''Buy milk'' False 2])
   \<and> findAll example_draws (snd (delete (example_repo full) (Some (PStr (str ''a'')))))
       \<noteq> findAll example_draws (example_repo full)"
proof -
  let ?r' = "\<lparr> tasks = [example_task ''b'' ''Write report'' True 1,
                        example_task ''c'' ''Call Ana'' False 0,
                        example_task ''a'' ''Buy milk'' False 2],
               store = full \<rparr>"
  have ok: "repo_ok (example_repo full)" by (rule example_repo_ok)
  have ok': "repo_ok ?r'"
    by (simp add: repo_ok_def example_task_def task_ok_def title_ok_def is_space_def str_def)
  have before: "findAll example_draws (example_repo full)
       = Inr (map snd [example_task ''a'' ''Buy milk'' False 2,
                       example_task ''b'' ''Write report'' True 1,
                       example_task ''c'' ''Call Ana'' False 0])"
    using findAll_ok [OF ok, of example_draws] by (simp add: Map_values_def example_repo_def)
  have after: "findAll example_draws ?r'
       = Inr (map snd [example_task ''b'' ''Write report'' True 1,
                       example_task ''c'' ''Call Ana'' False 0,
                       example_task ''a'' ''Buy milk'' False 2])"
    using findAll_ok [OF ok', of example_draws] by (simp add: Map_values_def)
  have ne: "findAll example_draws ?r' \<noteq> findAll example_draws (example_repo full)"
    unfolding before after by (simp add: example_task_def str_def)
  from before after ne show ?thesis
    by (simp add: delete_rollback_order)
qed

section \<open>Well-formedness is preserved\<close>

text \<open>
  Every mutating method of the repository takes a well-formed repository to a well-formed
  one, whether it returns or throws, provided the tasks it is given satisfy the
  constructor's invariant; the constructor establishes that invariant whenever the
  generated UUID is not empty and the clock does not read 0.
\<close>

lemma repo_ok_store [simp]: "repo_ok (r\<lparr>store := st\<rparr>) = repo_ok r"
  by (simp add: repo_ok_def)

lemma set_update_subset: "set (AList.update k v al) \<subseteq> insert (k, v) (set al)"
  by (induction al) auto

lemma repo_ok_Map_set:
  assumes "repo_ok r" and "task_ok t"
  shows "repo_ok (r\<lparr>tasks := Map_set (tasks r) (task_id t) t\<rparr>)"
proof -
  have "distinct (map fst (AList.update (task_id t) t (tasks r)))"
    using assms(1) by (simp add: repo_ok_def distinct_update)
  moreover have "\<forall>(k, u) \<in> set (AList.update (task_id t) t (tasks r)). k = task_id u \<and> task_ok u"
    using assms set_update_subset [of "task_id t" t "tasks r"] by (auto simp: repo_ok_def)
  ultimately show ?thesis
    by (simp add: repo_ok_def Map_set_def)
qed

lemma repo_ok_Map_delete:
  assumes "repo_ok r"
  shows "repo_ok (r\<lparr>tasks := Map_delete (tasks r) k\<rparr>)"
proof (cases k)
  case None
  with assms show ?thesis by (simp add: Map_delete_def)
next
  case (Some p)
  have "set (AList.delete p (tasks r)) \<subseteq> set (tasks r)"
    by (auto simp: AList.delete_eq)
  moreover have "distinct (map fst (AList.delete p (tasks r)))"
    using assms by (simp add: repo_ok_def distinct_delete)
  ultimately show ?thesis
    using assms Some by (auto simp: repo_ok_def Map_delete_def)
qed

lemma persist_repo_ok: "persist r = Inr r' \<Longrightarrow> repo_ok r' = repo_ok r"
  by (auto simp: persist_def setItem_def split: option.splits)

lemma save_preserves:
  assumes ok: "repo_ok r" and t: "task_ok t"
  shows "repo_ok (snd (save r (Instance t)))"
proof (cases "persist (r\<lparr>tasks := Map_set (tasks r) (task_id t) t\<rparr>)")
  case (Inl e)
  then show ?thesis using ok by (simp add: save_failed)
next
  case (Inr r2)
  then have "repo_ok r2" using repo_ok_Map_set [OF ok t] by (simp add: persist_repo_ok)
  with Inr show ?thesis by (simp add: save_def Let_def)
qed

lemma createTask_preserves:
  assumes "repo_ok r" and "draw_ok g"
  shows "repo_ok (snd (createTask g r ttl))"
proof (cases "Task_new g \<lparr> d_title = ttl, d_completed = None, d_id = None,
                         d_createdAt = None, d_order = None \<rparr>")
  case (Inl e)
  with assms show ?thesis by (simp add: createTask_def)
next
  case (Inr t)
  then have "task_ok t" using assms(2) by (simp add: Task_new_task_ok)
  with Inr assms(1) show ?thesis by (simp add: createTask_def save_preserves)
qed

lemma delete_preserves:
  assumes ok: "repo_ok r"
  shows "repo_ok (snd (delete r k))"
proof (cases "Map_get (tasks r) k")
  case None
  then show ?thesis using ok by (simp add: delete_absent)
next
  case (Some t)
  then obtain p where k: "k = Some p" by (cases k) (auto simp: Map_get_def)
  with Some have get: "Map_get (tasks r) (Some p) = Some t" by simp
  then have mo: "map_of (tasks r) p = Some t" by (simp add: Map_get_def)
  show ?thesis
  proof (cases "persist (r\<lparr>tasks := Map_delete (tasks r) (Some p)\<rparr>)")
    case (Inl e)
    from delete_failed [OF get Inl] repo_ok_reinserted [OF ok mo] k show ?thesis by simp
  next
    case (Inr r2)
    then have "repo_ok r2" using repo_ok_Map_delete [OF ok, of "Some p"] by (simp add: persist_repo_ok)
    with Inr get k show ?thesis by (simp add: delete_def Let_def)
  qed
qed

lemma deleteMany_loop_preserves:
  "repo_ok (r\<lparr>tasks := m\<rparr>) \<Longrightarrow> repo_ok (r\<lparr>tasks := fst (deleteMany_loop ks (m, n))\<rparr>)"
proof (induction ks arbitrary: m n)
  case Nil
  then show ?case by simp
next
  case (Cons k ks)
  show ?case
  proof (cases "Map_has m k")
    case True
    have "repo_ok (r\<lparr>tasks := Map_delete m k\<rparr>)"
      using repo_ok_Map_delete [OF Cons.prems, of k] by simp
    then have "repo_ok (r\<lparr>tasks := fst (deleteMany_loop ks (Map_delete m k, n + 1))\<rparr>)"
      by (rule Cons.IH)
    with True show ?thesis by simp
  next
    case False
    with Cons.IH [OF Cons.prems, of n] show ?thesis by simp
  qed
qed

lemma deleteMany_preserves:
  assumes ok: "repo_ok r"
  shows "repo_ok (snd (deleteMany r ids))"
proof (cases ids)
  case None
  with ok show ?thesis by (simp add: deleteMany_def)
next
  case (Some ks)
  obtain m n where loop: "deleteMany_loop ks (tasks r, 0) = (m, n)"
    by (cases "deleteMany_loop ks (tasks r, 0)") auto
  have m: "repo_ok (r\<lparr>tasks := m\<rparr>)"
    using deleteMany_loop_preserves [where r = r and m = "tasks r" and ks = ks and n = 0] ok loop by simp
  show ?thesis
  proof (cases "n = 0")
    case True
    with Some loop m show ?thesis by (simp add: deleteMany_def)
  next
    case False
    show ?thesis
    proof (cases "persist (r\<lparr>tasks := m\<rparr>)")
      case (Inl e)
      with Some loop False ok show ?thesis by (simp add: deleteMany_def)
    next
      case (Inr r2)
      then have "repo_ok r2" using m by (simp add: persist_repo_ok)
      with Inr Some loop False show ?thesis by (simp add: deleteMany_def)
    qed
  qed
qed

lemma clear_preserves:
  assumes ok: "repo_ok r"
  shows "repo_ok (snd (clear r))"
proof (cases "tasks r = []")
  case True
  with ok show ?thesis by (simp add: clear_def)
next
  case False
  show ?thesis
  proof (cases "persist (r\<lparr>tasks := []\<rparr>)")
    case (Inl e)
    with False ok show ?thesis by (simp add: clear_def)
  next
    case (Inr r2)
    moreover have "repo_ok (r\<lparr>tasks := []\<rparr>)" by (simp add: repo_ok_def)
    ultimately have "repo_ok r2" by (simp add: persist_repo_ok)
    with Inr False show ?thesis by (simp add: clear_def)
  qed
qed

lemma saveMany_loop_preserves:
  "repo_ok (r\<lparr>tasks := m\<rparr>) \<Longrightarrow> \<forall>t. Instance t \<in> set as \<longrightarrow> task_ok t \<Longrightarrow>
   saveMany_loop as m = Inr m' \<Longrightarrow> repo_ok (r\<lparr>tasks := m'\<rparr>)"
proof (induction as arbitrary: m)
  case Nil
  then show ?case by simp
next
  case (Cons a as)
  from Cons.prems(3) obtain t where a: "a = Instance t"
    by (cases a) auto
  with Cons.prems(2) have t: "task_ok t" by simp
  have "repo_ok (r\<lparr>tasks := Map_set m (task_id t) t\<rparr>)"
    using repo_ok_Map_set [OF Cons.prems(1) t] by simp
  moreover have "\<forall>t. Instance t \<in> set as \<longrightarrow> task_ok t" using Cons.prems(2) by simp
  moreover have "saveMany_loop as (Map_set m (task_id t) t) = Inr m'"
    using Cons.prems(3) a by simp
  ultimately show ?case by (rule Cons.IH)
qed

lemma saveMany_preserves:
  assumes ok: "repo_ok r" and ts: "\<forall>t. Instance t \<in> set as \<longrightarrow> task_ok t"
  shows "repo_ok (snd (saveMany r (Some as)))"
proof (cases "saveMany_loop as (tasks r)")
  case (Inl e)
  with ok show ?thesis by (simp add: saveMany_def)
next
  case (Inr m)
  have m: "repo_ok (r\<lparr>tasks := m\<rparr>)"
    using saveMany_loop_preserves [where r = r and m = "tasks r" and as = as and m' = m] ok ts Inr by simp
  show ?thesis
  proof (cases "persist (r\<lparr>tasks := m\<rparr>)")
    case (Inl e)
    with Inr ok show ?thesis by (simp add: saveMany_def)
  next
    case (Inr r2)
    then have "repo_ok r2" using m by (simp add: persist_repo_ok)
    with Inr \<open>saveMany_loop as (tasks r) = Inr m\<close> show ?thesis by (simp add: saveMany_def)
  qed
qed

lemma fromJSON_task_ok: "draw_ok g \<Longrightarrow> fromJSON g e = Inr t \<Longrightarrow> task_ok t"
  by (cases e) (auto dest: Task_new_task_ok)

lemma import_loop_preserves:
  "repo_ok (r\<lparr>tasks := m\<rparr>) \<Longrightarrow> \<forall>i. draw_ok (G i) \<Longrightarrow>
   import_loop G i es m = Inr m' \<Longrightarrow> repo_ok (r\<lparr>tasks := m'\<rparr>)"
proof (induction es arbitrary: m i)
  case Nil
  then show ?case by simp
next
  case (Cons e es)
  from Cons.prems(3) obtain t where e: "fromJSON (G i) e = Inr t"
    by (cases "fromJSON (G i) e") auto
  then have t: "task_ok t" using Cons.prems(2) fromJSON_task_ok by blast
  have "repo_ok (r\<lparr>tasks := Map_set m (task_id t) t\<rparr>)"
    using repo_ok_Map_set [OF Cons.prems(1) t] by simp
  moreover have "import_loop G (Suc i) es (Map_set m (task_id t) t) = Inr m'"
    using Cons.prems(3) e by simp
  ultimately show ?case using Cons.prems(2) by (intro Cons.IH)
qed

lemma repo_ok_same_tasks: "tasks r' = tasks r \<Longrightarrow> repo_ok r' = repo_ok r"
  by (simp add: repo_ok_def)

lemma import_preserves:
  assumes ok: "repo_ok r" and G: "\<forall>i. draw_ok (G i)"
  shows "repo_ok (snd (import G r jsonString))"
proof (cases "fst (import G r jsonString)")
  case (Inl e)
  then have "tasks (snd (import G r jsonString)) = tasks r"
    by (rule import_error_unchanged)
  then have "repo_ok (snd (import G r jsonString)) = repo_ok r"
    by (rule repo_ok_same_tasks)
  with ok show ?thesis by simp
next
  case success: (Inr n)
  obtain es where es: "jsonString = Records es"
  proof (cases jsonString)
    case Malformed
    with success show ?thesis by (simp add: import_def)
  next
    case NonArray
    with success show ?thesis by (simp add: import_def)
  next
    case (Records es)
    then show ?thesis by (rule that)
  qed
  from success have success': "fst (import G r (Records es)) = Inr n"
    unfolding es .
  obtain m where m: "import_loop G 0 (map jsonify_element es) [] = Inr m"
  proof (cases "import_loop G 0 (map jsonify_element es) []")
    case (Inl x)
    then have "fst (import G r (Records es)) = Inl (ImportFailed x)"
      by (simp add: import_def)
    with success' show ?thesis by simp
  next
    case (Inr m)
    then show ?thesis by (rule that)
  qed
  have "repo_ok (r\<lparr>tasks := []\<rparr>)" by (simp add: repo_ok_def)
  then have okm: "repo_ok (r\<lparr>tasks := m\<rparr>)"
    using G m by (rule import_loop_preserves)
  have nr: "\<not> write_rejected r m"
  proof
    assume "write_rejected r m"
    from import_failed [OF m this] obtain x
      where "import G r (Records es) = (Inl (ImportFailed (DOMException x)), r)" by blast
    with success' show False by simp
  qed
  let ?w = "(written r m)\<lparr>tasks := m\<rparr>"
  note eq = import_first_write [OF m nr]
  have okw: "repo_ok ?w"
    using okm by (simp add: repo_ok_def)
  have "repo_ok (snd (import G r (Records es)))"
  proof (cases "persist ?w")
    case (Inl e)
    with eq have "fst (import G r (Records es)) = Inl (ImportFailed e)" by simp
    with success' show ?thesis by simp
  next
    case (Inr r2)
    with okw have "repo_ok r2" by (simp add: persist_repo_ok)
    moreover from eq Inr have "snd (import G r (Records es)) = r2" by simp
    ultimately show ?thesis by simp
  qed
  then show ?thesis unfolding es .
qed

lemma empty_repo_ok: "repo_ok \<lparr> tasks = [], store = st \<rparr>"
  by (simp add: repo_ok_def)

section \<open>Updating and reordering\<close>

lemma Task_new_of_task:
  assumes "truthy i" and "truthy ca" and "validateTitle v = Inr s"
  shows "Task_new g \<lparr> d_title = v, d_completed = Some (PBool b), d_id = Some i,
                      d_createdAt = Some ca, d_order = Some p \<rparr>
         = Inr \<lparr> task_id = i, title = trim s, completed = b, createdAt = ca, order = p \<rparr>"
  using assms by (simp add: Task_new_def)

lemma updateTitle_step:
  "truthy (task_id t) \<Longrightarrow> truthy (createdAt t) \<Longrightarrow> validateTitle v = Inr s \<Longrightarrow>
   updateTitle g t v = Inr (t\<lparr>title := trim s\<rparr>)"
  by (simp add: updateTitle_def Task_new_of_task)

lemma updateTitle_Inl: "validateTitle v = Inl e \<Longrightarrow> updateTitle g t v = Inl e"
  by (simp add: updateTitle_def Task_new_def)

lemma toggleCompleted_ok:
  "task_ok t \<Longrightarrow> toggleCompleted g t = Inr (t\<lparr>completed := \<not> completed t\<rparr>)"
  using Task_new_toJSON [of "t\<lparr>completed := \<not> completed t\<rparr>" g]
  by (simp add: toggleCompleted_def toJSON_def task_ok_def)

lemma updateOrder_ok:
  "task_ok t \<Longrightarrow> updateOrder g t w = Inr (t\<lparr>order := default_to (PNum 0) w\<rparr>)"
  using Task_new_toJSON [of "t\<lparr>order := default_to (PNum 0) w\<rparr>" g]
  by (cases w) (simp_all add: updateOrder_def toJSON_def task_ok_def Task_new_def validateTitle_ok
      title_ok_trim del: validateTitle.simps)

lemma ensureTaskExists_Inr:
  assumes "ensureTaskExists g r k = Inr c"
  shows "\<exists>cur. Map_get (tasks r) k = Some cur \<and> Task_new g (toJSON cur) = Inr c"
  using assms
  by (auto simp: ensureTaskExists_def findById_def split: option.splits sum.splits)

lemma ensureTaskExists_title_ok: "ensureTaskExists g r k = Inr c \<Longrightarrow> title_ok (title c)"
  using ensureTaskExists_Inr Task_new_title_ok by blast

lemma save_accepted:
  assumes "\<not> write_rejected r (Map_set (tasks r) (task_id t) t)"
  shows "save r (Instance t)
         = (Inr t, \<lparr> tasks = Map_set (tasks r) (task_id t) t,
                     store = (store r)\<lparr>item := Some (JSON_stringify
                        (map toJSON (Map_values (Map_set (tasks r) (task_id t) t))))\<rparr> \<rparr>)"
  using assms
  by (cases r) (simp add: save_def persist_def setItem_def write_rejected_def Let_def)

lemma save_rejected:
  assumes "write_rejected r (Map_set (tasks r) (task_id t) t)"
  shows "\<exists>e. save r (Instance t) = (Inl (SaveFailed e), r) \<and> storage_rejection e"
proof -
  obtain e where "persist (r\<lparr>tasks := Map_set (tasks r) (task_id t) t\<rparr>) = Inl e"
    "storage_rejection e" using write_rejected_persist [OF assms] by blast
  then show ?thesis by (auto simp: save_failed)
qed

lemma updated_spec_id [simp]: "task_id (updated_spec c u) = task_id c"
  by (simp add: updated_spec_def)

text \<open>
  The three steps of \<open>updateTask\<close> on a current task with a truthy id and \<open>createdAt\<close>
  and a title the constructor accepts end in the task of \<open>updated_spec\<close>, which is
  then saved.
\<close>

lemma updateTask_steps:
  assumes ens: "ensureTaskExists (G 0) r k = Inr c"
    and i: "truthy (task_id c)" and ca: "truthy (createdAt c)"
    and ttl: "u_title u = None \<or> (\<exists>s. validateTitle (u_title u) = Inr s)"
  shows "updateTask G r k u
         = (case save r (Instance (updated_spec c u)) of
              (Inl e, r') \<Rightarrow> (Inl (UpdateFailed e), r')
            | (Inr t, r') \<Rightarrow> (Inr t, r'))"
proof -
  have c: "task_ok c"
    using i ca ensureTaskExists_title_ok [OF ens] by (simp add: task_ok_def)
  define t1 where "t1 = c\<lparr>title := (case u_title u of Some (PStr s) \<Rightarrow> trim s | _ \<Rightarrow> title c)\<rparr>"
  have step1: "(if u_title u \<noteq> None then updateTitle (G 1) c (u_title u) else Inr c) = Inr t1"
  proof (cases "u_title u")
    case None
    then show ?thesis by (simp add: t1_def)
  next
    case (Some p)
    with ttl obtain s where s: "validateTitle (u_title u) = Inr s" by auto
    from validateTitle_Inr [OF s] have "u_title u = Some (PStr s)" by simp
    with s i ca show ?thesis by (simp add: t1_def updateTitle_step del: validateTitle.simps)
  qed
  have "title_ok (title t1)"
  proof (cases "u_title u")
    case None
    with c show ?thesis by (simp add: t1_def task_ok_def)
  next
    case (Some p)
    with ttl obtain s where s: "validateTitle (u_title u) = Inr s" by auto
    from validateTitle_Inr [OF s] have "u_title u = Some (PStr s)" "title_ok (trim s)"
      by (simp_all add: title_ok_of_trim)
    then show ?thesis by (simp add: t1_def)
  qed
  with c have t1: "task_ok t1" by (simp add: t1_def task_ok_def)
  define t2 where "t2 = (if u_completed u \<noteq> None \<and> u_completed u \<noteq> Some (PBool (completed c))
                         then t1\<lparr>completed := \<not> completed t1\<rparr> else t1)"
  have step2: "(if u_completed u \<noteq> None \<and> u_completed u \<noteq> Some (PBool (completed c))
                then toggleCompleted (G 2) t1 else Inr t1) = Inr t2"
    using t1 by (simp add: t2_def toggleCompleted_ok)
  have t2: "task_ok t2" using t1 by (simp add: t2_def task_ok_def)
  define t3 where "t3 = (case u_order u of None \<Rightarrow> t2 | Some p \<Rightarrow> t2\<lparr>order := p\<rparr>)"
  have step3: "(if u_order u \<noteq> None then updateOrder (G 3) t2 (u_order u) else Inr t2) = Inr t3"
    using t2 by (cases "u_order u") (simp_all add: t3_def updateOrder_ok)
  have final: "t3 = updated_spec c u"
    by (cases "u_order u") (simp_all add: t3_def t2_def t1_def updated_spec_def)
  show ?thesis
    unfolding updateTask_def
    by (simp only: ens step1 step2 step3 final sum.case)
qed

lemma updateTask_title_rejected:
  assumes "ensureTaskExists (G 0) r k = Inr c" and "u_title u \<noteq> None"
    and "validateTitle (u_title u) = Inl e"
  shows "updateTask G r k u = (Inl (UpdateFailed e), r)"
  using assms by (simp add: updateTask_def updateTitle_Inl)

text \<open>
  Claim C6, as stated, fails for a task whose \<open>createdAt\<close> is 0. Such a task is the
  current task of \<open>updateTask\<close> when it is stored and the call starts while the clock
  reads 0; its title update then constructs a task whose \<open>createdAt\<close> is the time of
  the update, and that task is the one persisted. With the clock past 0 during the whole
  call, the copy made by \<open>findById\<close> already carries the new time, and the persisted
  task differs from the stored one in \<open>createdAt\<close> all the same.
\<close>

theorem updateTask_epoch_counterexample:
  "ensureTaskExists (epoch_draws 0) epoch_repo (Some (PStr (str ''a''))) = Inr epoch_task
   \<and> createdAt epoch_task = PNum 0
   \<and> updateTitle (epoch_draws 1) epoch_task (Some (PStr (str ''Buy oat milk'')))
       = Inr \<lparr> task_id = PStr (str ''a''), title = str ''Buy oat milk'', completed = False,
               createdAt = PNum 1700000000999, order = PNum 0 \<rparr>
   \<and> fst (updateTask epoch_draws epoch_repo (Some (PStr (str ''a'')))
             \<lparr> u_title = Some (PStr (str ''Buy oat milk'')), u_completed = None, u_order = None \<rparr>)
       = Inr \<lparr> task_id = PStr (str ''a''), title = str ''Buy oat milk'', completed = False,
               createdAt = PNum 1700000000999, order = PNum 0 \<rparr>
   \<and> tasks (snd (updateTask example_draws epoch_repo (Some (PStr (str ''a'')))
             \<lparr> u_title = Some (PStr (str ''Buy oat milk'')), u_completed = None, u_order = None \<rparr>))
       = [(PStr (str ''a''),
           \<lparr> task_id = PStr (str ''a''), title = str ''Buy oat milk'', completed = False,
             createdAt = PNum 1700000000999, order = PNum 0 \<rparr>)]"
  by (simp add: updateTask_def ensureTaskExists_def findById_def toJSON_def updateTitle_def
      Task_new_def save_def persist_def setItem_def accepting_sel Map_get_def Map_set_def
      Map_values_def epoch_repo_def epoch_task_def epoch_draws_def example_draws_def
      trim_def is_space_def str_def Let_def)

text \<open>
  Claim C6, amended. For an id that is not stored, \<open>updateTask\<close> fails with the
  not-found error and leaves the repository as it was. For a stored id whose current
  task (the copy \<open>findById\<close> returns) has a truthy id and \<open>createdAt\<close>, and updates
  whose title, if given, the constructor accepts: the task that results is the one the
  spec describes (\<open>updated_spec\<close>: the trimmed title, the toggle only when the requested
  value is defined and differs from the current task's, the order, with the id and
  \<open>createdAt\<close> of the current task). If the storage accepts the write, \<open>updateTask\<close>
  returns that task and leaves the map with that task alone set under its id and the
  storage holding the serialisation of that map; if the storage rejects the write,
  \<open>updateTask\<close> throws the wrapped persistence error and leaves the repository as it
  was. A title the constructor rejects makes \<open>updateTask\<close> throw the wrapped validation
  error before anything is stored. Each of the three steps of the source, applied to a
  task with a truthy id and \<open>createdAt\<close>, returns that task with the one field changed.
  The current task has a truthy id and \<open>createdAt\<close> on every well-formed repository,
  and whenever the copy is made while the clock does not read 0 and the generated UUID is
  not empty.
\<close>

theorem updateTask_behaviour:
  "(Map_get (tasks r) k = None \<longrightarrow>
      (\<exists>e. updateTask G r k u = (Inl e, r) \<and> NotFound e))
   \<and> (ensureTaskExists (G 0) r k = Inr c \<longrightarrow> truthy (task_id c) \<longrightarrow> truthy (createdAt c) \<longrightarrow>
       (u_title u = None \<or> (\<exists>s. validateTitle (u_title u) = Inr s)) \<longrightarrow>
       \<not> write_rejected r (Map_set (tasks r) (task_id c) (updated_spec c u)) \<longrightarrow>
      updateTask G r k u
        = (Inr (updated_spec c u),
           \<lparr> tasks = Map_set (tasks r) (task_id c) (updated_spec c u),
             store = (store r)\<lparr>item := Some (JSON_stringify
                (map toJSON (Map_values (Map_set (tasks r) (task_id c) (updated_spec c u)))))\<rparr> \<rparr>))
   \<and> (ensureTaskExists (G 0) r k = Inr c \<longrightarrow> truthy (task_id c) \<longrightarrow> truthy (createdAt c) \<longrightarrow>
       (u_title u = None \<or> (\<exists>s. validateTitle (u_title u) = Inr s)) \<longrightarrow>
       write_rejected r (Map_set (tasks r) (task_id c) (updated_spec c u)) \<longrightarrow>
      (\<exists>e. updateTask G r k u = (Inl (UpdateFailed (SaveFailed e)), r) \<and> storage_rejection e))
   \<and> (ensureTaskExists (G 0) r k = Inr c \<longrightarrow> u_title u \<noteq> None \<longrightarrow>
       validateTitle (u_title u) = Inl ev \<longrightarrow>
      updateTask G r k u = (Inl (UpdateFailed ev), r))
   \<and> (truthy (task_id t) \<longrightarrow> truthy (createdAt t) \<longrightarrow> validateTitle v = Inr s \<longrightarrow>
      updateTitle g t v = Inr (t\<lparr>title := trim s\<rparr>))
   \<and> (task_ok t \<longrightarrow> toggleCompleted g t = Inr (t\<lparr>completed := \<not> completed t\<rparr>))
   \<and> (task_ok t \<longrightarrow> updateOrder g t (Some p) = Inr (t\<lparr>order := p\<rparr>))
   \<and> (repo_ok r \<longrightarrow> Map_get (tasks r) k = Some cur \<longrightarrow>
      ensureTaskExists (G 0) r k = Inr cur \<and> truthy (task_id cur) \<and> truthy (createdAt cur))
   \<and> (draw_ok (G 0) \<longrightarrow> ensureTaskExists (G 0) r k = Inr c \<longrightarrow>
      truthy (task_id c) \<and> truthy (createdAt c))"
proof -
  have absent: "Map_get (tasks r) k = None \<longrightarrow>
      (\<exists>e. updateTask G r k u = (Inl e, r) \<and> NotFound e)"
    by (simp add: updateTask_def ensureTaskExists_absent)
  have stored: "ensureTaskExists (G 0) r k = Inr c \<longrightarrow> truthy (task_id c) \<longrightarrow> truthy (createdAt c) \<longrightarrow>
       (u_title u = None \<or> (\<exists>s. validateTitle (u_title u) = Inr s)) \<longrightarrow>
       \<not> write_rejected r (Map_set (tasks r) (task_id c) (updated_spec c u)) \<longrightarrow>
      updateTask G r k u
        = (Inr (updated_spec c u),
           \<lparr> tasks = Map_set (tasks r) (task_id c) (updated_spec c u),
             store = (store r)\<lparr>item := Some (JSON_stringify
                (map toJSON (Map_values (Map_set (tasks r) (task_id c) (updated_spec c u)))))\<rparr> \<rparr>)"
  proof (intro impI)
    assume ens: "ensureTaskExists (G 0) r k = Inr c"
      and i: "truthy (task_id c)" and ca: "truthy (createdAt c)"
      and ttl: "u_title u = None \<or> (\<exists>s. validateTitle (u_title u) = Inr s)"
      and w: "\<not> write_rejected r (Map_set (tasks r) (task_id c) (updated_spec c u))"
    from w have "\<not> write_rejected r
        (Map_set (tasks r) (task_id (updated_spec c u)) (updated_spec c u))" by simp
    from save_accepted [OF this]
    show "updateTask G r k u
        = (Inr (updated_spec c u),
           \<lparr> tasks = Map_set (tasks r) (task_id c) (updated_spec c u),
             store = (store r)\<lparr>item := Some (JSON_stringify
                (map toJSON (Map_values (Map_set (tasks r) (task_id c) (updated_spec c u)))))\<rparr> \<rparr>)"
      by (simp add: updateTask_steps [where G = G and r = r and k = k and c = c and u = u, OF ens i ca ttl])
  qed
  have rejected: "ensureTaskExists (G 0) r k = Inr c \<longrightarrow> truthy (task_id c) \<longrightarrow> truthy (createdAt c) \<longrightarrow>
       (u_title u = None \<or> (\<exists>s. validateTitle (u_title u) = Inr s)) \<longrightarrow>
       write_rejected r (Map_set (tasks r) (task_id c) (updated_spec c u)) \<longrightarrow>
      (\<exists>e. updateTask G r k u = (Inl (UpdateFailed (SaveFailed e)), r) \<and> storage_rejection e)"
  proof (intro impI)
    assume ens: "ensureTaskExists (G 0) r k = Inr c"
      and i: "truthy (task_id c)" and ca: "truthy (createdAt c)"
      and ttl: "u_title u = None \<or> (\<exists>s. validateTitle (u_title u) = Inr s)"
      and w: "write_rejected r (Map_set (tasks r) (task_id c) (updated_spec c u))"
    from w have "write_rejected r
        (Map_set (tasks r) (task_id (updated_spec c u)) (updated_spec c u))" by simp
    from save_rejected [OF this] obtain e where
      "save r (Instance (updated_spec c u)) = (Inl (SaveFailed e), r)" "storage_rejection e"
      by blast
    then show "\<exists>e. updateTask G r k u = (Inl (UpdateFailed (SaveFailed e)), r)
        \<and> storage_rejection e"
      by (simp add: updateTask_steps [where G = G and r = r and k = k and c = c and u = u, OF ens i ca ttl])
  qed
  have invalid: "ensureTaskExists (G 0) r k = Inr c \<longrightarrow> u_title u \<noteq> None \<longrightarrow>
       validateTitle (u_title u) = Inl ev \<longrightarrow>
      updateTask G r k u = (Inl (UpdateFailed ev), r)"
    using updateTask_title_rejected by blast
  have s1: "truthy (task_id t) \<longrightarrow> truthy (createdAt t) \<longrightarrow> validateTitle v = Inr s \<longrightarrow>
      updateTitle g t v = Inr (t\<lparr>title := trim s\<rparr>)"
    using updateTitle_step by blast
  have s2: "task_ok t \<longrightarrow> toggleCompleted g t = Inr (t\<lparr>completed := \<not> completed t\<rparr>)"
    using toggleCompleted_ok by blast
  have s3: "task_ok t \<longrightarrow> updateOrder g t (Some p) = Inr (t\<lparr>order := p\<rparr>)"
    by (simp add: updateOrder_ok)
  have wf: "repo_ok r \<longrightarrow> Map_get (tasks r) k = Some cur \<longrightarrow>
      ensureTaskExists (G 0) r k = Inr cur \<and> truthy (task_id cur) \<and> truthy (createdAt cur)"
  proof (intro impI)
    assume ok: "repo_ok r" and get: "Map_get (tasks r) k = Some cur"
    then have "task_ok cur" by (simp add: repo_ok_get)
    with ok get show "ensureTaskExists (G 0) r k = Inr cur \<and> truthy (task_id cur)
        \<and> truthy (createdAt cur)"
      by (simp add: ensureTaskExists_ok task_ok_def)
  qed
  have drawn: "draw_ok (G 0) \<longrightarrow> ensureTaskExists (G 0) r k = Inr c \<longrightarrow>
      truthy (task_id c) \<and> truthy (createdAt c)"
  proof (intro impI)
    assume g: "draw_ok (G 0)" and ens: "ensureTaskExists (G 0) r k = Inr c"
    from ensureTaskExists_Inr [OF ens] obtain cur where "Task_new (G 0) (toJSON cur) = Inr c"
      by blast
    with g have "task_ok c" by (rule Task_new_task_ok)
    then show "truthy (task_id c) \<and> truthy (createdAt c)" by (simp add: task_ok_def)
  qed
  show ?thesis
    by (intro conjI absent stored rejected invalid s1 s2 s3 wf drawn)
qed

theorem updateTask_behaviour_witness:
  "Map_get (tasks (example_repo accepting)) (Some (PStr (str ''zz''))) = None
   \<and> updateTask example_draws (example_repo accepting) (Some (PStr (str ''zz'')))
        \<lparr>u_title = None, u_completed = None, u_order = None\<rparr>
       = (Inl (TaskNotFound (Some (PStr (str ''zz'')))), example_repo accepting)
   \<and> ensureTaskExists (example_draws 0) (example_repo accepting) (Some (PStr (str ''a'')))
       = Inr (snd (example_task ''a'' ''Buy milk'' False 2))
   \<and> updateTask example_draws (example_repo accepting) (Some (PStr (str ''a'')))
        \<lparr>u_title = Some (PStr ([0xA0] @ str ''Buy oat milk '')), u_completed = Some (PBool True),
          u_order = Some (PNum 5)\<rparr>
       = (Inr \<lparr>task_id = PStr (str ''a''), title = str ''Buy oat milk'', completed = True,
               createdAt = PNum 1700000000000, order = PNum 5\<rparr>,
          \<lparr> tasks = [(PStr (str ''a''),
                      \<lparr>task_id = PStr (str ''a''), title = str ''Buy oat milk'', completed = True,
                        createdAt = PNum 1700000000000, order = PNum 5\<rparr>),
                     example_task ''b'' ''Write report'' True 1,
                     example_task ''c'' ''Call Ana'' False 0],
            store = \<lparr> item = Some (JSON_stringify
                        [toJSON \<lparr>task_id = PStr (str ''a''), title = str ''Buy oat milk'',
                                  completed = True, createdAt = PNum 1700000000000,
                                  order = PNum 5\<rparr>,
                         toJSON (snd (example_task ''b'' ''Write report'' True 1)),
                         toJSON (snd (example_task ''c'' ''Call Ana'' False 0))]),
                      rejects = rejects accepting \<rparr> \<rparr>)
   \<and> updateTask example_draws (example_repo full) (Some (PStr (str ''a'')))
        \<lparr>u_title = None, u_completed = Some (PBool True), u_order = None\<rparr>
       = (Inl (UpdateFailed (SaveFailed StorageFull)), example_repo full)
   \<and> updateTask example_draws (example_repo accepting) (Some (PStr (str ''a'')))
        \<lparr>u_title = Some (PStr [0xA0, 0x20]), u_completed = Some (PBool True), u_order = None\<rparr>
       = (Inl (UpdateFailed TitleEmpty), example_repo accepting)"
proof -
  let ?a = "Some (PStr (str ''a''))"
  let ?cur = "snd (example_task ''a'' ''Buy milk'' False 2)"
  let ?u = "\<lparr>u_title = Some (PStr ([0xA0] @ str ''Buy oat milk '')),
             u_completed = Some (PBool True), u_order = Some (PNum 5)\<rparr>"
  let ?v = "\<lparr>u_title = None, u_completed = Some (PBool True), u_order = None\<rparr>"
  let ?w = "\<lparr>u_title = Some (PStr [0xA0, 0x20]), u_completed = Some (PBool True),
             u_order = None\<rparr>"
  have h1: "Map_get (tasks (example_repo accepting)) (Some (PStr (str ''zz''))) = None"
    by (simp add: Map_get_def example_repo_def example_task_def str_def)
  have get: "Map_get (tasks (example_repo st)) ?a = Some ?cur" for st
    by (simp add: Map_get_def example_repo_def example_task_def str_def)
  have ens: "ensureTaskExists (example_draws 0) (example_repo st) ?a = Inr ?cur" for st
    using get [of st] by (simp add: ensureTaskExists_ok example_repo_ok)
  have i: "truthy (task_id ?cur)" and ca: "truthy (createdAt ?cur)"
    by (simp_all add: example_task_def str_def)
  have ttl: "u_title ?u = None \<or> (\<exists>s. validateTitle (u_title ?u) = Inr s)"
    by (simp add: trim_def is_space_def str_def)
  have ttlv: "u_title ?v = None \<or> (\<exists>s. validateTitle (u_title ?v) = Inr s)"
    by simp
  have bad: "u_title ?w \<noteq> None" "validateTitle (u_title ?w) = Inl TitleEmpty"
    by (simp_all add: trim_def is_space_def)
  have acc: "\<not> write_rejected (example_repo accepting) m" for m
    by (simp add: write_rejected_def example_repo_def accepting_sel)
  have a: "updateTask example_draws (example_repo accepting) (Some (PStr (str ''zz'')))
        \<lparr>u_title = None, u_completed = None, u_order = None\<rparr>
       = (Inl (TaskNotFound (Some (PStr (str ''zz'')))), example_repo accepting)"
    using updateTask_behaviour [where r = "example_repo accepting"
        and k = "Some (PStr (str ''zz''))" and G = example_draws
        and u = "\<lparr>u_title = None, u_completed = None, u_order = None\<rparr>", THEN conjunct1] h1
    by (auto simp: updateTask_def ensureTaskExists_absent)
  have b: "updateTask example_draws (example_repo accepting) ?a ?u
       = (Inr (updated_spec ?cur ?u),
           \<lparr> tasks = Map_set (tasks (example_repo accepting)) (task_id ?cur) (updated_spec ?cur ?u),
             store = (store (example_repo accepting))\<lparr>item := Some (JSON_stringify
                (map toJSON (Map_values (Map_set (tasks (example_repo accepting)) (task_id ?cur)
                   (updated_spec ?cur ?u)))))\<rparr> \<rparr>)"
    using updateTask_behaviour [where r = "example_repo accepting" and k = ?a
        and G = example_draws and u = ?u and c = ?cur, THEN conjunct2, THEN conjunct1]
      ens [of accepting] i ca ttl acc
    by (elim impE) assumption+
  have b': "updateTask example_draws (example_repo accepting) ?a ?u
       = (Inr \<lparr>task_id = PStr (str ''a''), title = str ''Buy oat milk'', completed = True,
               createdAt = PNum 1700000000000, order = PNum 5\<rparr>,
          \<lparr> tasks = [(PStr (str ''a''),
                      \<lparr>task_id = PStr (str ''a''), title = str ''Buy oat milk'', completed = True,
                        createdAt = PNum 1700000000000, order = PNum 5\<rparr>),
                     example_task ''b'' ''Write report'' True 1,
                     example_task ''c'' ''Call Ana'' False 0],
            store = \<lparr> item = Some (JSON_stringify
                        [toJSON \<lparr>task_id = PStr (str ''a''), title = str ''Buy oat milk'',
                                  completed = True, createdAt = PNum 1700000000000,
                                  order = PNum 5\<rparr>,
                         toJSON (snd (example_task ''b'' ''Write report'' True 1)),
                         toJSON (snd (example_task ''c'' ''Call Ana'' False 0))]),
                      rejects = rejects accepting \<rparr> \<rparr>)"
    unfolding b
    by (simp add: updated_spec_def Map_set_def Map_values_def example_repo_def example_task_def
        accepting_def trim_def is_space_def str_def)
  have c: "updateTask example_draws (example_repo full) ?a ?v
       = (Inl (UpdateFailed (SaveFailed StorageFull)), example_repo full)"
  proof -
    from updateTask_behaviour [where r = "example_repo full" and k = ?a
        and G = example_draws and u = ?v and c = ?cur,
        THEN conjunct2, THEN conjunct2, THEN conjunct1]
      ens [of full] i ca ttlv full_rejects
    have "\<exists>e. updateTask example_draws (example_repo full) ?a ?v
          = (Inl (UpdateFailed (SaveFailed e)), example_repo full) \<and> storage_rejection e"
      by (elim impE) assumption+
    then obtain e where e: "updateTask example_draws (example_repo full) ?a ?v
          = (Inl (UpdateFailed (SaveFailed e)), example_repo full)" by blast
    have "fst (updateTask example_draws (example_repo full) ?a ?v)
          = Inl (UpdateFailed (SaveFailed StorageFull))"
      by (simp add: updateTask_def ensureTaskExists_def findById_def toJSON_def
          toggleCompleted_def Task_new_def save_def persist_def setItem_def full_sel
          Map_get_def Map_set_def Map_values_def example_repo_def example_task_def
          trim_def is_space_def str_def Let_def)
    with e show ?thesis by simp
  qed
  have d: "updateTask example_draws (example_repo accepting) ?a ?w
       = (Inl (UpdateFailed TitleEmpty), example_repo accepting)"
    using updateTask_behaviour [where r = "example_repo accepting" and k = ?a
        and G = example_draws and u = ?w and c = ?cur and ev = TitleEmpty,
        THEN conjunct2, THEN conjunct2, THEN conjunct2, THEN conjunct1]
      ens [of accepting] bad
    by (elim impE) assumption+
  from h1 a ens [of accepting] b' c d show ?thesis
    by (intro conjI)
qed

lemma traverse_fails:
  assumes "\<exists>x \<in> set xs. bad x"
    and "\<And>i x. x \<in> set xs \<Longrightarrow> bad x \<Longrightarrow> f i x = Inl (E x)"
    and "\<And>i x. x \<in> set xs \<Longrightarrow> \<not> bad x \<Longrightarrow> \<exists>y. f i x = Inr y"
  shows "\<exists>x \<in> set xs. bad x \<and> traverse f i xs = Inl (E x)"
  using assms
proof (induction xs arbitrary: i)
  case Nil
  then show ?case by simp
next
  case (Cons x xs)
  show ?case
  proof (cases "bad x")
    case True
    then have "f i x = Inl (E x)" using Cons.prems(2) by simp
    with True show ?thesis by simp
  next
    case False
    then obtain y where y: "f i x = Inr y" using Cons.prems(3) by fastforce
    from False Cons.prems(1) have "\<exists>x \<in> set xs. bad x" by auto
    then have "\<exists>z \<in> set xs. bad z \<and> traverse f (Suc i) xs = Inl (E z)"
      using Cons.prems(2,3) by (intro Cons.IH) auto
    then obtain z where "z \<in> set xs" "bad z" "traverse f (Suc i) xs = Inl (E z)" by blast
    with y show ?thesis by auto
  qed
qed

text \<open>
  Claim C5. On a well-formed repository, when some item of the list names an id that is
  not stored, \<open>reorderTasks\<close> fails with the not-found error of such an id and returns
  the repository unchanged, the map and the storage alike: no order was updated and
  nothing was written.
\<close>

theorem reorderTasks_missing_id:
  assumes ok: "repo_ok r" and missing: "\<exists>it \<in> set items. \<not> Map_has (tasks r) (r_id it)"
  shows "\<exists>it \<in> set items. \<not> Map_has (tasks r) (r_id it)
           \<and> reorderTasks G r (Some items) = (Inl (TaskNotFound (r_id it)), r)
           \<and> NotFound (TaskNotFound (r_id it))"
proof -
  let ?f = "\<lambda>i it. case ensureTaskExists (G (2 * i)) r (r_id it) of
                      Inl e \<Rightarrow> Inl e
                    | Inr t \<Rightarrow> updateOrder (G (2 * i + 1)) t (r_order it)"
  have bad: "?f i it = Inl (TaskNotFound (r_id it))" if "\<not> Map_has (tasks r) (r_id it)" for i it
    using that by (simp add: Map_has_get ensureTaskExists_absent)
  have good: "\<exists>y. ?f i it = Inr y" if "\<not> \<not> Map_has (tasks r) (r_id it)" for i it
  proof -
    from that obtain t where t: "Map_get (tasks r) (r_id it) = Some t"
      by (auto simp: Map_has_get)
    then have "task_ok t" using ok by (simp add: repo_ok_get)
    then show ?thesis
      using ok t by (simp add: ensureTaskExists_ok updateOrder_ok)
  qed
  have "\<exists>it \<in> set items. \<not> Map_has (tasks r) (r_id it)
          \<and> traverse ?f 0 items = Inl (TaskNotFound (r_id it))"
    using missing bad good by (intro traverse_fails) blast+
  then show ?thesis
    by (auto simp: reorderTasks_def)
qed

theorem reorderTasks_missing_id_witness:
  "repo_ok (example_repo accepting)
   \<and> \<not> Map_has (tasks (example_repo accepting)) (Some (PStr (str ''missing'')))
   \<and> reorderTasks example_draws (example_repo accepting)
        (Some [\<lparr>r_id = Some (PStr (str ''missing'')), r_order = Some (PNum 0)\<rparr>])
       = (Inl (TaskNotFound (Some (PStr (str ''missing'')))), example_repo accepting)"
proof -
  have h1: "repo_ok (example_repo accepting)" by (rule example_repo_ok)
  have h2: "\<not> Map_has (tasks (example_repo accepting)) (Some (PStr (str ''missing'')))"
    by (simp add: Map_has_def example_repo_def example_task_def str_def)
  then have h3: "\<exists>it \<in> set [\<lparr>r_id = Some (PStr (str ''missing'')), r_order = Some (PNum 0)\<rparr>].
                   \<not> Map_has (tasks (example_repo accepting)) (r_id it)"
    by simp
  from reorderTasks_missing_id [OF h1 h3, of example_draws] h1 h2 show ?thesis
    by simp
qed


end
